theory Spec2Isabelle
  imports Complex_Main
begin

section \<open>Heavenly Feeding: the room-scoped game server\<close>

text \<open>
  The development embeds the multi-room variant of \<^verbatim>\<open>src/server/index.js\<close> (the second
  program text of that file, the one with \<^verbatim>\<open>createRoom\<close>, \<^verbatim>\<open>startRoom\<close> and
  \<^verbatim>\<open>PICKUP_CLOSE_RADIUS\<close>).  JavaScript numbers are idealised as real numbers: rounding,
  signed zeros, \<^verbatim>\<open>NaN\<close> and the infinities of IEEE doubles are outside the model, except
  that \<^verbatim>\<open>NaN\<close> as the result of \<^verbatim>\<open>Number(...)\<close> is \<open>None\<close>, and except for the
  angle utilities, which are given a second time with the rounding of doubles, since
  their loops end on the reals for a reason that rounding takes away.  Objects that the
  source mutates in place (players inside the \<^verbatim>\<open>Map\<close>, foods inside the array) are
  records inside lists, and every mutation rewrites the entry at its position.
\<close>

subsection \<open>Constants\<close>

definition WIDTH :: real where "WIDTH = 960"
definition HEIGHT :: real where "HEIGHT = 540"
definition TICK_RATE :: real where "TICK_RATE = 60"
definition DT :: real where "DT = 1 / TICK_RATE"
definition MOVE_SPEED :: real where "MOVE_SPEED = 220"
definition MAX_ANGULAR_SPEED :: real where "MAX_ANGULAR_SPEED = 45 / 10"
definition CHOPSTICK_LENGTH :: real where "CHOPSTICK_LENGTH = 181"
definition CONE_RADIUS :: real where "CONE_RADIUS = 180"
definition CONE_HALF_ANGLE :: real where "CONE_HALF_ANGLE = pi / 3"
definition PICKUP_CLOSE_RADIUS :: real where "PICKUP_CLOSE_RADIUS = 26"
definition MOUTH_RADIUS :: real where "MOUTH_RADIUS = 30"
definition MOUTH_OFFSET_X :: real where "MOUTH_OFFSET_X = 0"
definition MOUTH_OFFSET_Y_LEFT :: real where "MOUTH_OFFSET_Y_LEFT = 84"
definition MOUTH_OFFSET_Y_RIGHT :: real where "MOUTH_OFFSET_Y_RIGHT = 67"
definition EAT_TIME :: real where "EAT_TIME = 4 / 10"
definition MAX_FOOD :: nat where "MAX_FOOD = 8"
definition SPAWN_INTERVAL :: real where "SPAWN_INTERVAL = 2"
definition GRAVITY :: real where "GRAVITY = 170"
definition MAX_FULLNESS :: real where "MAX_FULLNESS = 100"

text \<open>The \<^verbatim>\<open>value\<close> column of \<^verbatim>\<open>FOOD_TYPES\<close>.\<close>

definition FOOD_TYPES :: "real list" where
  "FOOD_TYPES = [6, 6, 7, 8, 9, 10, 10, 11, 12, 13]"

subsection \<open>Geometry and angle utilities\<close>

definition hypot :: "real \<Rightarrow> real \<Rightarrow> real" where
  "hypot a b = sqrt (a\<^sup>2 + b\<^sup>2)"

text \<open>\<^verbatim>\<open>Math.atan2(y, x)\<close> on real arguments, with value 0 at the origin.\<close>

definition atan2 :: "real \<Rightarrow> real \<Rightarrow> real" where
  "atan2 b a =
     (if 0 < a then arctan (b / a)
      else if a < 0 then (if 0 \<le> b then arctan (b / a) + pi else arctan (b / a) - pi)
      else if 0 < b then pi / 2
      else if b < 0 then - (pi / 2)
      else 0)"

definition normalize_vec :: "real \<Rightarrow> real \<Rightarrow> real \<times> real" where
  "normalize_vec a b =
     (let len = hypot a b in if len = 0 then (0, 0) else (a / len, b / len))"

text \<open>
  \<^verbatim>\<open>wrapAngle\<close> is two \<^verbatim>\<open>while\<close> loops in sequence: the first adds \<open>2\<pi>\<close> while the angle
  is at most \<open>-\<pi>\<close>, the second subtracts \<open>2\<pi>\<close> while it exceeds \<open>\<pi>\<close>.  On the reals both
  loops terminate, by the number of turns that remain.
\<close>

function wrap_up :: "real \<Rightarrow> real" where
  "wrap_up a = (if a \<le> - pi then wrap_up (a + pi * 2) else a)"
  by pat_completeness auto
termination
proof (relation "measure (\<lambda>a. nat (\<lfloor>(- pi - a) / (pi * 2)\<rfloor> + 1))")
  show "wf (measure (\<lambda>a. nat (\<lfloor>(- pi - a) / (pi * 2)\<rfloor> + 1)))" by simp
next
  fix a :: real
  assume le: "a \<le> - pi"
  have eq: "(- pi - (a + pi * 2)) / (pi * 2) = (- pi - a) / (pi * 2) - 1"
    by (simp add: field_simps)
  have nonneg: "0 \<le> (- pi - a) / (pi * 2)"
    using le by simp
  then have "0 \<le> \<lfloor>(- pi - a) / (pi * 2)\<rfloor>" by simp
  then have "nat (\<lfloor>(- pi - a) / (pi * 2) - 1\<rfloor> + 1) < nat (\<lfloor>(- pi - a) / (pi * 2)\<rfloor> + 1)"
    by linarith
  then show "(a + pi * 2, a) \<in> measure (\<lambda>a. nat (\<lfloor>(- pi - a) / (pi * 2)\<rfloor> + 1))"
    by (simp only: in_measure eq)
qed

function wrap_down :: "real \<Rightarrow> real" where
  "wrap_down a = (if a > pi then wrap_down (a - pi * 2) else a)"
  by pat_completeness auto
termination
proof (relation "measure (\<lambda>a. nat (\<lfloor>(a - pi) / (pi * 2)\<rfloor> + 1))")
  show "wf (measure (\<lambda>a. nat (\<lfloor>(a - pi) / (pi * 2)\<rfloor> + 1)))" by simp
next
  fix a :: real
  assume gt: "pi < a"
  have eq: "(a - pi * 2 - pi) / (pi * 2) = (a - pi) / (pi * 2) - 1"
    by (simp add: field_simps)
  have nonneg: "0 \<le> (a - pi) / (pi * 2)"
    using gt by simp
  then have "0 \<le> \<lfloor>(a - pi) / (pi * 2)\<rfloor>" by simp
  then have "nat (\<lfloor>(a - pi) / (pi * 2) - 1\<rfloor> + 1) < nat (\<lfloor>(a - pi) / (pi * 2)\<rfloor> + 1)"
    by linarith
  then show "(a - pi * 2, a) \<in> measure (\<lambda>a. nat (\<lfloor>(a - pi) / (pi * 2)\<rfloor> + 1))"
    by (simp only: in_measure eq)
qed

declare wrap_up.simps [simp del] wrap_down.simps [simp del]

definition wrapAngle :: "real \<Rightarrow> real" where
  "wrapAngle angle = wrap_down (wrap_up angle)"

definition rotateTowards :: "real \<Rightarrow> real \<Rightarrow> real \<Rightarrow> real" where
  "rotateTowards current target maxDelta =
     (let delta = wrapAngle (target - current);
          clamped = max (- maxDelta) (min maxDelta delta)
      in wrapAngle (current + clamped))"


definition clamp :: "real \<Rightarrow> real \<Rightarrow> real \<Rightarrow> real" where
  "clamp v lo hi = max lo (min hi v)"

subsection \<open>The angle utilities on doubles\<close>

text \<open>
  The numbers of the source are IEEE binary64.  For a result in the normal range, an
  addition or subtraction returns the exact result rounded to the nearest number with a
  significand of 53 bits, ties to the even significand: \<open>to_double\<close>, where the unit in
  the last place of \<open>v\<close> is \<open>2\<close> to the power \<open>\<lfloor>log\<^sub>2 |v|\<rfloor> - 52\<close>.  Overflow and subnormal
  results are not modelled.  \<open>PI_D\<close> is the double \<^verbatim>\<open>Math.PI\<close>, and \<^verbatim>\<open>Math.PI * 2\<close> is exact.
  A loop that does not end is the value \<open>None\<close>.
\<close>

definition round_even :: "real \<Rightarrow> int" where
  "round_even v =
     (let f = \<lfloor>v\<rfloor>; d = v - of_int f
      in if d < 1 / 2 then f else if 1 / 2 < d then f + 1 else if even f then f else f + 1)"

definition to_double :: "real \<Rightarrow> real" where
  "to_double v =
     (if v = 0 then 0
      else (let q = 2 powr of_int (\<lfloor>log 2 \<bar>v\<bar>\<rfloor> - 52)
            in of_int (round_even (v / q)) * q))"

definition PI_D :: real where
  "PI_D = 884279719003555 / 281474976710656"

partial_function (option) wrap_up_d :: "real \<Rightarrow> real option" where
  "wrap_up_d a = (if a \<le> - PI_D then wrap_up_d (to_double (a + PI_D * 2)) else Some a)"

partial_function (option) wrap_down_d :: "real \<Rightarrow> real option" where
  "wrap_down_d a = (if a > PI_D then wrap_down_d (to_double (a - PI_D * 2)) else Some a)"

definition wrapAngle_d :: "real \<Rightarrow> real option" where
  "wrapAngle_d a = (case wrap_up_d a of None \<Rightarrow> None | Some a1 \<Rightarrow> wrap_down_d a1)"

definition rotateTowards_d :: "real \<Rightarrow> real \<Rightarrow> real \<Rightarrow> real option" where
  "rotateTowards_d current target maxDelta =
     (case wrapAngle_d (to_double (target - current)) of
        None \<Rightarrow> None
      | Some delta \<Rightarrow>
          (let clamped = max (- maxDelta) (min maxDelta delta)
           in wrapAngle_d (to_double (current + clamped))))"

subsection \<open>Data model\<close>

datatype player_side = Left | Right

record player_input =
  moveX :: real
  moveY :: real
  aim :: real
  release :: bool

text \<open>
  The player object without its socket.  \<open>pid\<close>, \<open>px\<close>, \<open>py\<close> are the source's
  \<^verbatim>\<open>id\<close>, \<^verbatim>\<open>x\<close>, \<^verbatim>\<open>y\<close>; \<open>holdingFoodId\<close> is \<open>None\<close> for \<^verbatim>\<open>null\<close>.
\<close>

record player =
  pid :: string
  side :: player_side
  px :: real
  py :: real
  angle :: real
  targetAngle :: real
  fullness :: real
  mouthOpenUntil :: real
  holdingFoodId :: "nat option"
  ready :: bool
  input :: player_input

datatype food_state = Free | Held

text \<open>
  The food object: \<open>fid\<close>, \<open>fx\<close>, \<open>fy\<close>, \<open>fvalue\<close>, \<open>fstate\<close> are the source's \<^verbatim>\<open>id\<close>,
  \<^verbatim>\<open>x\<close>, \<^verbatim>\<open>y\<close>, \<^verbatim>\<open>value\<close>, \<^verbatim>\<open>state\<close>; \<open>mouthTimers\<close> is the object keyed by player id.
\<close>

record food =
  fid :: nat
  fx :: real
  fy :: real
  vx :: real
  vy :: real
  fvalue :: real
  fstate :: food_state
  heldBy :: "string option"
  mouthTimers :: "string \<rightharpoonup> real"

text \<open>
  The room.  \<open>players\<close> is the \<^verbatim>\<open>Map\<close> from player id to player, kept as the list of its
  values in insertion order (the key of an entry is its \<open>pid\<close>).
\<close>

record room =
  rid :: string
  players :: "player list"
  foods :: "food list"
  nextFoodId :: nat
  lastSpawnTime :: real
  time :: real
  gameOver :: bool
  winnerId :: "string option"
  loserId :: "string option"
  started :: bool

definition createRoom :: "string \<Rightarrow> room" where
  "createRoom roomId =
     \<lparr>rid = roomId, players = [], foods = [], nextFoodId = 1, lastSpawnTime = 0, time = 0,
      gameOver = False, winnerId = None, loserId = None, started = False\<rparr>"

text \<open>JavaScript truthiness of a food id or \<^verbatim>\<open>null\<close>, and of a player id or \<^verbatim>\<open>null\<close>.\<close>

definition truthy_id :: "nat option \<Rightarrow> bool" where
  "truthy_id h = (case h of None \<Rightarrow> False | Some n \<Rightarrow> n \<noteq> 0)"

definition truthy_str :: "string option \<Rightarrow> bool" where
  "truthy_str h = (case h of None \<Rightarrow> False | Some s \<Rightarrow> s \<noteq> [])"

text \<open>\<^verbatim>\<open>Map.get\<close>, \<^verbatim>\<open>Map.delete\<close> and a field assignment on the player stored under a key.\<close>

definition players_get :: "player list \<Rightarrow> string \<Rightarrow> player option" where
  "players_get ps k = find (\<lambda>p. pid p = k) ps"

definition players_delete :: "player list \<Rightarrow> string \<Rightarrow> player list" where
  "players_delete ps k = filter (\<lambda>p. pid p \<noteq> k) ps"

definition update_player :: "string \<Rightarrow> (player \<Rightarrow> player) \<Rightarrow> player list \<Rightarrow> player list" where
  "update_player k g ps = map (\<lambda>p. if pid p = k then g p else p) ps"

text \<open>
  A field assignment on the object that \<^verbatim>\<open>Array.prototype.find\<close> returned: the first entry
  that satisfies the predicate is rewritten, the others are kept.
\<close>

fun update_first :: "('a \<Rightarrow> bool) \<Rightarrow> ('a \<Rightarrow> 'a) \<Rightarrow> 'a list \<Rightarrow> 'a list" where
  "update_first P g [] = []"
| "update_first P g (a # as) = (if P a then g a # as else a # update_first P g as)"

text \<open>
  \<^verbatim>\<open>for (const player of room.players.values())\<close> with a body that assigns fields of
  players and foods but never adds or removes a player: the keys are visited in insertion
  order, and the body sees the player as it is when its turn comes.
\<close>

definition visit :: "(room \<Rightarrow> player \<Rightarrow> room) \<Rightarrow> string \<Rightarrow> room \<Rightarrow> room" where
  "visit body k r = (case players_get (players r) k of None \<Rightarrow> r | Some p \<Rightarrow> body r p)"

definition for_each_player :: "(room \<Rightarrow> player \<Rightarrow> room) \<Rightarrow> room \<Rightarrow> room" where
  "for_each_player body r = fold (visit body) (map pid (players r)) r"

subsection \<open>Reach point, mouth and pickup\<close>

definition tipPosition :: "player \<Rightarrow> real \<times> real" where
  "tipPosition p =
     (px p + cos (angle p) * CHOPSTICK_LENGTH, py p + sin (angle p) * CHOPSTICK_LENGTH)"

definition mouthPosition :: "player \<Rightarrow> real \<times> real" where
  "mouthPosition p =
     (let offsetY = (if side p = Right then MOUTH_OFFSET_Y_RIGHT else MOUTH_OFFSET_Y_LEFT)
      in (px p + MOUTH_OFFSET_X, py p - offsetY))"

definition isInCone :: "player \<Rightarrow> food \<Rightarrow> bool" where
  "isInCone p f =
     (let tip = tipPosition p;
          dx = fx f - fst tip;
          dy = fy f - snd tip;
          dist = hypot dx dy
      in if dist > CONE_RADIUS then False
         else if dist \<le> PICKUP_CLOSE_RADIUS then True
         else (let angleToFood = atan2 dy dx;
                   delta = \<bar>wrapAngle (angleToFood - angle p)\<bar>
               in delta \<le> CONE_HALF_ANGLE))"

definition tryPickup :: "room \<Rightarrow> player \<Rightarrow> room" where
  "tryPickup r p =
     (if truthy_id (holdingFoodId p) then r
      else (case find (\<lambda>f. fstate f = Free \<and> isInCone p f) (foods r) of
        None \<Rightarrow> r
      | Some candidate \<Rightarrow>
          r\<lparr>foods := update_first (\<lambda>f. fstate f = Free \<and> isInCone p f)
                      (\<lambda>f. f\<lparr>fstate := Held, heldBy := Some (pid p), mouthTimers := Map.empty\<rparr>)
                      (foods r),
            players := update_player (pid p) (\<lambda>q. q\<lparr>holdingFoodId := Some (fid candidate)\<rparr>)
                         (players r)\<rparr>))"

definition releaseFood :: "room \<Rightarrow> player \<Rightarrow> room" where
  "releaseFood r p =
     (if \<not> truthy_id (holdingFoodId p) then r
      else (case find (\<lambda>f. Some (fid f) = holdingFoodId p) (foods r) of
        None \<Rightarrow> r\<lparr>players := update_player (pid p) (\<lambda>q. q\<lparr>holdingFoodId := None\<rparr>) (players r)\<rparr>
      | Some _ \<Rightarrow>
          r\<lparr>foods := update_first (\<lambda>f. Some (fid f) = holdingFoodId p)
                      (\<lambda>f. f\<lparr>fstate := Free, heldBy := None,
                              vx := cos (angle p) * 60, vy := sin (angle p) * 60\<rparr>)
                      (foods r),
            players := update_player (pid p) (\<lambda>q. q\<lparr>holdingFoodId := None\<rparr>) (players r)\<rparr>))"

text \<open>
  The pickup rule in the words of the specification: a food can be picked up by a player
  when it is free, lies within the cone radius of the chopstick tip, and is either within
  the point-blank radius of the tip or within the angular half-width of the facing angle.
\<close>

definition tip_distance :: "player \<Rightarrow> food \<Rightarrow> real" where
  "tip_distance p f = hypot (fx f - fst (tipPosition p)) (fy f - snd (tipPosition p))"

definition bearing_offset :: "player \<Rightarrow> food \<Rightarrow> real" where
  "bearing_offset p f =
     \<bar>wrapAngle (atan2 (fy f - snd (tipPosition p)) (fx f - fst (tipPosition p)) - angle p)\<bar>"

definition pickable :: "player \<Rightarrow> food \<Rightarrow> bool" where
  "pickable p f \<longleftrightarrow>
     fstate f = Free \<and> tip_distance p f \<le> CONE_RADIUS
     \<and> (tip_distance p f \<le> PICKUP_CLOSE_RADIUS \<or> bearing_offset p f \<le> CONE_HALF_ANGLE)"

subsection \<open>Food physics\<close>

text \<open>
  \<^verbatim>\<open>Math.random()\<close> is a sequence \<open>rnd\<close> of draws together with the number of draws made so
  far; a function that draws returns the new count.
\<close>

fun updateFoods_list :: "(nat \<Rightarrow> real) \<Rightarrow> nat \<Rightarrow> real \<Rightarrow> food list \<Rightarrow> food list \<times> nat" where
  "updateFoods_list rnd n dt [] = ([], n)"
| "updateFoods_list rnd n dt (f # fs) =
     (if fstate f = Held then
        (let (fs', n') = updateFoods_list rnd n dt fs in (f # fs', n'))
      else
        (let vy1 = vy f + GRAVITY * dt;
             x1 = fx f + vx f * dt;
             y1 = fy f + vy1 * dt
         in if y1 > HEIGHT + 60 then
              (let (fs', n') = updateFoods_list rnd (n + 2) dt fs
               in (f\<lparr>fx := 80 + rnd n * (WIDTH - 160), fy := - 20,
                      vx := (rnd (n + 1) - 1 / 2) * 16, vy := 0\<rparr> # fs', n'))
            else
              (let (fs', n') = updateFoods_list rnd n dt fs
               in (f\<lparr>fx := x1, fy := y1, vy := vy1\<rparr> # fs', n'))))"

definition updateFoods :: "(nat \<Rightarrow> real) \<Rightarrow> nat \<Rightarrow> room \<Rightarrow> real \<Rightarrow> room \<times> nat" where
  "updateFoods rnd n r dt =
     (let (fs', n') = updateFoods_list rnd n dt (foods r) in (r\<lparr>foods := fs'\<rparr>, n'))"

definition spawnFood :: "(nat \<Rightarrow> real) \<Rightarrow> nat \<Rightarrow> room \<Rightarrow> room \<times> nat" where
  "spawnFood rnd n r =
     (if length (foods r) \<ge> MAX_FOOD then (r, n)
      else
        (let val = FOOD_TYPES ! nat \<lfloor>rnd n * real (length FOOD_TYPES)\<rfloor>;
             f = \<lparr>fid = nextFoodId r, fx = 80 + rnd (n + 1) * (WIDTH - 160), fy = - 20,
                  vx = (rnd (n + 2) - 1 / 2) * 16, vy = 0, fvalue = val, fstate = Free,
                  heldBy = None, mouthTimers = Map.empty\<rparr>
         in (r\<lparr>nextFoodId := nextFoodId r + 1, foods := foods r @ [f]\<rparr>, n + 3)))"

text \<open>
  What the physics update does to one food, in the words of the specification: a held
  food is left alone; a free food that has fallen past \<open>HEIGHT + 60\<close> after this tick's
  integration reappears at \<open>y = -20\<close> with \<open>x\<close> inside the horizontal margin, a
  horizontal velocity in \<open>[-8, 8)\<close> and no vertical velocity; any other free food moves
  under gravity.
\<close>

definition respawned :: "real \<Rightarrow> food \<Rightarrow> food \<Rightarrow> bool" where
  "respawned dt f f' \<longleftrightarrow>
     (fstate f = Held \<longrightarrow> f' = f)
   \<and> (fstate f \<noteq> Held \<and> HEIGHT + 60 < fy f + (vy f + GRAVITY * dt) * dt \<longrightarrow>
        fy f' = - 20 \<and> vy f' = 0 \<and> 80 \<le> fx f' \<and> fx f' < WIDTH - 80
      \<and> - 8 \<le> vx f' \<and> vx f' < 8
      \<and> fid f' = fid f \<and> fvalue f' = fvalue f \<and> fstate f' = fstate f
      \<and> heldBy f' = heldBy f \<and> mouthTimers f' = mouthTimers f)
   \<and> (fstate f \<noteq> Held \<and> \<not> HEIGHT + 60 < fy f + (vy f + GRAVITY * dt) * dt \<longrightarrow>
        f' = f\<lparr>fx := fx f + vx f * dt, fy := fy f + (vy f + GRAVITY * dt) * dt,
               vy := vy f + GRAVITY * dt\<rparr>)"

subsection \<open>Held-food tracking\<close>

definition updateHeldFoods_step :: "room \<Rightarrow> player \<Rightarrow> room" where
  "updateHeldFoods_step r p =
     (if \<not> truthy_id (holdingFoodId p) then r
      else (case find (\<lambda>f. Some (fid f) = holdingFoodId p) (foods r) of
        None \<Rightarrow> r\<lparr>players := update_player (pid p) (\<lambda>q. q\<lparr>holdingFoodId := None\<rparr>) (players r)\<rparr>
      | Some _ \<Rightarrow>
          (let tip = tipPosition p
           in r\<lparr>foods := update_first (\<lambda>f. Some (fid f) = holdingFoodId p)
                   (\<lambda>f. f\<lparr>fx := fx f + (fst tip - fx f) * (35 / 100),
                           fy := fy f + (snd tip - fy f) * (35 / 100),
                           vx := 0, vy := 0\<rparr>)
                   (foods r)\<rparr>)))"

text \<open>The assignment \<^verbatim>\<open>player.holdingFoodId = null\<close> on the player stored under a key.\<close>

definition clear_holding :: "string \<Rightarrow> room \<Rightarrow> room" where
  "clear_holding k r =
     r\<lparr>players := update_player k (\<lambda>q. q\<lparr>holdingFoodId := None\<rparr>) (players r)\<rparr>"

definition updateHeldFoods :: "room \<Rightarrow> room" where
  "updateHeldFoods r = for_each_player updateHeldFoods_step r"

subsection \<open>Eating resolution\<close>

definition inMouth :: "player \<Rightarrow> food \<Rightarrow> bool" where
  "inMouth p f =
     (let mouth = mouthPosition p;
          dist = hypot (fx f - fst mouth) (fy f - snd mouth)
      in dist \<le> MOUTH_RADIUS)"

text \<open>
  The assignment to \<^verbatim>\<open>food.mouthTimers[player.id]\<close>; a missing entry reads as
  \<^verbatim>\<open>undefined\<close>, which \<^verbatim>\<open>|| 0\<close> turns into 0.
\<close>

definition bump_timer :: "real \<Rightarrow> player \<Rightarrow> food \<Rightarrow> food" where
  "bump_timer dt p f =
     (if inMouth p f then
        f\<lparr>mouthTimers := (mouthTimers f)
             (pid p \<mapsto> (case mouthTimers f (pid p) of None \<Rightarrow> 0 | Some t \<Rightarrow> t) + dt)\<rparr>
      else f\<lparr>mouthTimers := (mouthTimers f)(pid p \<mapsto> 0)\<rparr>)"

definition timer_reached :: "player \<Rightarrow> food \<Rightarrow> bool" where
  "timer_reached p f = (case mouthTimers f (pid p) of None \<Rightarrow> False | Some t \<Rightarrow> t \<ge> EAT_TIME)"

text \<open>
  The body of \<^verbatim>\<open>if (food.mouthTimers[opponentId] >= EAT_TIME)\<close> up to its
  \<^verbatim>\<open>return\<close>; \<open>eater\<close> is the player object as the inner loop reached it.
\<close>

definition consume :: "room \<Rightarrow> food \<Rightarrow> player \<Rightarrow> room" where
  "consume r f eater =
     (let ps1 = update_player (pid eater)
                  (\<lambda>q. q\<lparr>fullness := fullness q + fvalue f,
                          mouthOpenUntil := time r + 35 / 100\<rparr>) (players r);
          ps2 = (if truthy_str (heldBy f) then
                   (case players_get ps1 (the (heldBy f)) of
                      None \<Rightarrow> ps1
                    | Some _ \<Rightarrow>
                        update_player (the (heldBy f)) (\<lambda>q. q\<lparr>holdingFoodId := None\<rparr>) ps1)
                 else ps1);
          r1 = r\<lparr>players := ps2, foods := filter (\<lambda>g. fid g \<noteq> fid f) (foods r)\<rparr>
      in if fullness eater + fvalue f \<ge> MAX_FULLNESS then
           r1\<lparr>gameOver := True,
              loserId := Some (pid eater),
              winnerId := (case find (\<lambda>q. pid q \<noteq> pid eater) ps2 of
                             None \<Rightarrow> None | Some opponent \<Rightarrow> Some (pid opponent)),
              started := False,
              players := map (\<lambda>q. q\<lparr>ready := False\<rparr>) ps2\<rparr>
         else r1)"

text \<open>The inner loop over the players for one food: the food with its timers, and the eater if any.\<close>

fun scan_players :: "real \<Rightarrow> food \<Rightarrow> player list \<Rightarrow> food \<times> player option" where
  "scan_players dt f [] = (f, None)"
| "scan_players dt f (p # ps) =
     (let f' = bump_timer dt p f
      in if timer_reached p f' then (f', Some p) else scan_players dt f' ps)"

text \<open>
  The outer loop over \<^verbatim>\<open>room.foods\<close>: \<open>visited\<close> are the foods already scanned, with
  their timers as the scan left them, and the last argument the foods still to scan.
\<close>

fun handleEating_loop :: "room \<Rightarrow> real \<Rightarrow> food list \<Rightarrow> food list \<Rightarrow> room" where
  "handleEating_loop r dt visited [] = r\<lparr>foods := visited\<rparr>"
| "handleEating_loop r dt visited (f # fs) =
     (case scan_players dt f (players r) of
        (f', None) \<Rightarrow> handleEating_loop r dt (visited @ [f']) fs
      | (f', Some eater) \<Rightarrow> consume (r\<lparr>foods := visited @ f' # fs\<rparr>) f' eater)"

definition handleEating :: "room \<Rightarrow> real \<Rightarrow> room" where
  "handleEating r dt = handleEating_loop r dt [] (foods r)"

text \<open>
  The eating rule in the words of the specification: the dwell timer of a food for a
  player after this tick's update, and a food qualifies when that timer reaches the
  eat-time threshold for some player.
\<close>

definition new_timer :: "real \<Rightarrow> player \<Rightarrow> food \<Rightarrow> real" where
  "new_timer dt p f =
     (if inMouth p f then (case mouthTimers f (pid p) of None \<Rightarrow> 0 | Some t \<Rightarrow> t) + dt else 0)"

definition qualifies :: "real \<Rightarrow> player list \<Rightarrow> food \<Rightarrow> bool" where
  "qualifies dt ps f = (\<exists>p \<in> set ps. EAT_TIME \<le> new_timer dt p f)"

subsection \<open>Player movement and the tick\<close>

definition updatePlayers_step :: "real \<Rightarrow> room \<Rightarrow> player \<Rightarrow> room" where
  "updatePlayers_step dt r p =
     (let inp = input p;
          mv = normalize_vec (moveX inp) (moveY inp);
          x1 = clamp (px p + fst mv * MOVE_SPEED * dt) 60 (WIDTH - 60);
          y1 = clamp (py p + snd mv * MOVE_SPEED * dt) 80 (HEIGHT - 60);
          a1 = rotateTowards (angle p) (aim inp) (MAX_ANGULAR_SPEED * dt);
          moved = (\<lambda>q. q\<lparr>px := x1, py := y1, targetAngle := aim inp, angle := a1\<rparr>);
          r1 = r\<lparr>players := update_player (pid p) moved (players r)\<rparr>;
          r2 = (if release inp then releaseFood r1 (moved p) else r1)
      in r2\<lparr>players := update_player (pid p)
                          (\<lambda>q. q\<lparr>input := (input q)\<lparr>release := False\<rparr>\<rparr>) (players r2)\<rparr>)"

definition updatePlayers :: "room \<Rightarrow> real \<Rightarrow> room" where
  "updatePlayers r dt = for_each_player (updatePlayers_step dt) r"

text \<open>
  The tick in two parts: the statements of \<^verbatim>\<open>tick\<close> up to the physics update, which hand
  the room to \<^verbatim>\<open>handleEating\<close>, and the whole tick.
\<close>

definition tick_physics :: "(nat \<Rightarrow> real) \<Rightarrow> nat \<Rightarrow> room \<Rightarrow> room \<times> nat" where
  "tick_physics rnd n r =
     (let r1 = updatePlayers r DT;
          r2 = for_each_player tryPickup r1;
          r3 = updateHeldFoods r2
      in updateFoods rnd n r3 DT)"

definition tick :: "(nat \<Rightarrow> real) \<Rightarrow> nat \<Rightarrow> room \<Rightarrow> room \<times> nat" where
  "tick rnd n r =
     (if \<not> started r \<or> gameOver r then (r, n)
      else
        (let (r4, n4) = tick_physics rnd n r;
             r5 = handleEating r4 DT;
             r6 = r5\<lparr>time := time r5 + DT\<rparr>;
             r7 = r6\<lparr>lastSpawnTime := lastSpawnTime r6 + DT\<rparr>
         in if lastSpawnTime r7 \<ge> SPAWN_INTERVAL
            then spawnFood rnd n4 (r7\<lparr>lastSpawnTime := 0\<rparr>)
            else (r7, n4)))"

subsection \<open>Room lifecycle\<close>

definition resetGameIfNeeded :: "room \<Rightarrow> room" where
  "resetGameIfNeeded r =
     (if length (players r) < 2 then
        r\<lparr>gameOver := False, winnerId := None, loserId := None, time := 0, started := False,
          foods := [], nextFoodId := 1,
          players := map (\<lambda>q. q\<lparr>ready := False, holdingFoodId := None\<rparr>) (players r)\<rparr>
      else r)"

definition assignSide :: "room \<Rightarrow> player_side option" where
  "assignSide r =
     (let sides = map side (players r)
      in if Left \<notin> set sides then Some Left
         else if Right \<notin> set sides then Some Right
         else None)"

definition allReady :: "room \<Rightarrow> bool" where
  "allReady r = (if length (players r) < 2 then False else list_all ready (players r))"

definition start_player :: "player \<Rightarrow> player" where
  "start_player q =
     (let q1 = q\<lparr>fullness := 0, holdingFoodId := None, mouthOpenUntil := 0,
                 input := (input q)\<lparr>moveX := 0, moveY := 0, release := False\<rparr>\<rparr>
      in if side q = Left then
           q1\<lparr>px := 180, py := HEIGHT / 2, angle := 0, targetAngle := 0,
              input := (input q1)\<lparr>aim := 0\<rparr>\<rparr>
         else
           q1\<lparr>px := WIDTH - 180, py := HEIGHT / 2, angle := pi, targetAngle := pi,
              input := (input q1)\<lparr>aim := pi\<rparr>\<rparr>)"

definition startRoom :: "room \<Rightarrow> room" where
  "startRoom r =
     r\<lparr>started := True, gameOver := False, winnerId := None, loserId := None, time := 0,
       foods := [], nextFoodId := 1, lastSpawnTime := 0,
       players := map start_player (players r)\<rparr>"

text \<open>
  The \<^verbatim>\<open>close\<close> handler of a connection.  \<open>p\<close> is the player object that the handler's
  closure holds; the registry \<^verbatim>\<open>rooms\<close> is kept as the set of its keys.
\<close>

definition on_close_room :: "room \<Rightarrow> player \<Rightarrow> room" where
  "on_close_room r p =
     (let r1 = r\<lparr>players := players_delete (players r) (pid p)\<rparr>;
          r2 = (if truthy_id (holdingFoodId p) then
                  (case find (\<lambda>f. Some (fid f) = holdingFoodId p) (foods r1) of
                     None \<Rightarrow> r1
                   | Some _ \<Rightarrow>
                       r1\<lparr>foods := update_first (\<lambda>f. Some (fid f) = holdingFoodId p)
                                     (\<lambda>f. f\<lparr>fstate := Free, heldBy := None\<rparr>) (foods r1)\<rparr>)
                else r1)
      in resetGameIfNeeded r2)"

definition on_close :: "string set \<times> room \<Rightarrow> string \<Rightarrow> player \<Rightarrow> string set \<times> room" where
  "on_close s roomId p =
     (let r' = on_close_room (snd s) p
      in (if length (players r') = 0 then fst s - {roomId} else fst s, r'))"

subsection \<open>Inbound messages\<close>

text \<open>
  The value that \<^verbatim>\<open>JSON.parse\<close> returns; a property that is absent reads as
  \<open>JUndefined\<close>.  An object is the list of its properties, each key once.
\<close>

datatype jsval =
    JUndefined
  | JNull
  | JBool bool
  | JNumber real
  | JString string
  | JArray "jsval list"
  | JObject "(string \<times> jsval) list"

text \<open>Reading a property of a parsed value that is not \<^verbatim>\<open>null\<close>.\<close>

definition get_field :: "jsval \<Rightarrow> string \<Rightarrow> jsval" where
  "get_field v k =
     (case v of
        JObject kvs \<Rightarrow> (case map_of kvs k of None \<Rightarrow> JUndefined | Some w \<Rightarrow> w)
      | _ \<Rightarrow> JUndefined)"

text \<open>\<^verbatim>\<open>msg.move?.x\<close>: \<^verbatim>\<open>undefined\<close> when \<^verbatim>\<open>msg.move\<close> is \<^verbatim>\<open>undefined\<close> or \<^verbatim>\<open>null\<close>.\<close>

definition get_field_opt :: "jsval \<Rightarrow> string \<Rightarrow> jsval" where
  "get_field_opt v k = (if v = JUndefined \<or> v = JNull then JUndefined else get_field v k)"

text \<open>
  \<^verbatim>\<open>Number(v)\<close>, with \<open>None\<close> for \<^verbatim>\<open>NaN\<close>.  The conversion of strings, arrays and objects
  goes through the engine's string-to-number grammar, which is the parameter \<open>conv\<close>.
\<close>

definition toNumber :: "(jsval \<Rightarrow> real option) \<Rightarrow> jsval \<Rightarrow> real option" where
  "toNumber conv v =
     (case v of
        JUndefined \<Rightarrow> None
      | JNull \<Rightarrow> Some 0
      | JBool b \<Rightarrow> Some (if b then 1 else 0)
      | JNumber a \<Rightarrow> Some a
      | _ \<Rightarrow> conv v)"

text \<open>\<^verbatim>\<open>Number(v) || d\<close>: \<^verbatim>\<open>NaN\<close> and 0 are falsy.\<close>

definition number_or :: "(jsval \<Rightarrow> real option) \<Rightarrow> jsval \<Rightarrow> real \<Rightarrow> real" where
  "number_or conv v d =
     (case toNumber conv v of None \<Rightarrow> d | Some a \<Rightarrow> if a = 0 then d else a)"

definition toBoolean :: "jsval \<Rightarrow> bool" where
  "toBoolean v =
     (case v of
        JUndefined \<Rightarrow> False
      | JNull \<Rightarrow> False
      | JBool b \<Rightarrow> b
      | JNumber a \<Rightarrow> a \<noteq> 0
      | JString s \<Rightarrow> s \<noteq> []
      | _ \<Rightarrow> True)"

datatype ws_data = Unparsable | Parsed jsval

datatype js_error = TypeError

definition apply_input :: "(jsval \<Rightarrow> real option) \<Rightarrow> jsval \<Rightarrow> player \<Rightarrow> player" where
  "apply_input conv msg q =
     q\<lparr>input := \<lparr>moveX = number_or conv (get_field_opt (get_field msg ''move'') ''x'') 0,
                  moveY = number_or conv (get_field_opt (get_field msg ''move'') ''y'') 0,
                  aim = number_or conv (get_field msg ''aim'') (aim (input q)),
                  release = toBoolean (get_field msg ''release'')\<rparr>\<rparr>"

text \<open>
  The \<^verbatim>\<open>message\<close> handler of the connection of the player with id \<open>k\<close>.  A text that
  \<^verbatim>\<open>JSON.parse\<close> rejects is dropped; reading \<^verbatim>\<open>msg.type\<close> of \<^verbatim>\<open>null\<close> throws.
\<close>

definition on_message :: "(jsval \<Rightarrow> real option) \<Rightarrow> room \<Rightarrow> string \<Rightarrow> ws_data \<Rightarrow> js_error + room" where
  "on_message conv r k d =
     (case d of
        Unparsable \<Rightarrow> Inr r
      | Parsed msg \<Rightarrow>
          if msg = JNull \<or> msg = JUndefined then Inl TypeError
          else if get_field msg ''type'' = JString ''input'' \<and> \<not> started r then Inr r
          else
            (let r1 = (if get_field msg ''type'' = JString ''input''
                       then r\<lparr>players := update_player k (apply_input conv msg) (players r)\<rparr>
                       else r);
                 r2 = (if get_field msg ''type'' = JString ''ready''
                       then (let r' = r1\<lparr>players := update_player k
                                        (\<lambda>q. q\<lparr>ready := toBoolean (get_field msg ''ready'')\<rparr>)
                                        (players r1)\<rparr>
                             in if allReady r' then startRoom r' else r')
                       else r1)
             in Inr r2))"

subsection \<open>Sample states\<close>

text \<open>Two players as the connection handler creates them, and ready and input messages.\<close>

definition player_a :: player where
  "player_a =
     \<lparr>pid = ''p_a'', side = Left, px = 180, py = HEIGHT / 2, angle = 0, targetAngle = 0,
      fullness = 0, mouthOpenUntil = 0, holdingFoodId = None, ready = False,
      input = \<lparr>moveX = 0, moveY = 0, aim = 0, release = False\<rparr>\<rparr>"

definition player_b :: player where
  "player_b =
     \<lparr>pid = ''p_b'', side = Right, px = WIDTH - 180, py = HEIGHT / 2, angle = pi,
      targetAngle = pi, fullness = 0, mouthOpenUntil = 0, holdingFoodId = None, ready = False,
      input = \<lparr>moveX = 0, moveY = 0, aim = pi, release = False\<rparr>\<rparr>"

definition ready_msg :: "bool \<Rightarrow> jsval" where
  "ready_msg b = JObject [(''type'', JString ''ready''), (''ready'', JBool b)]"

definition input_msg :: "jsval \<Rightarrow> jsval" where
  "input_msg a = JObject [(''type'', JString ''input''), (''aim'', a)]"

text \<open>A string-to-number conversion that reads nothing as a number.\<close>

definition no_conv :: "jsval \<Rightarrow> real option" where
  "no_conv v = None"

text \<open>A lobby where the first player is ready and the second is not yet.\<close>

definition lobby_room :: room where
  "lobby_room = (createRoom ''lobby'')\<lparr>players := [player_a\<lparr>ready := True\<rparr>, player_b]\<rparr>"

text \<open>A match in progress: both players are ready, as they were when it started.\<close>

definition running_room :: room where
  "running_room =
     (createRoom ''lobby'')
       \<lparr>players := [player_a\<lparr>ready := True, fullness := 40\<rparr>, player_b\<lparr>ready := True\<rparr>],
        started := True, time := 5\<rparr>"

text \<open>
  Foods for the eating rule.  The mouth of the left player at its spawn is at
  \<open>(180, HEIGHT / 2 - 84)\<close>; two foods rest there with 0.39 seconds on that player's
  timer, so that one more tick takes both over the threshold, and a third food is far
  from both mouths.
\<close>

definition food_at_mouth :: "nat \<Rightarrow> real \<Rightarrow> food" where
  "food_at_mouth i v =
     \<lparr>fid = i, fx = 180, fy = 186, vx = 0, vy = 0, fvalue = v, fstate = Free,
      heldBy = None, mouthTimers = [''p_a'' \<mapsto> 39 / 100]\<rparr>"

definition food_far :: food where
  "food_far =
     \<lparr>fid = 3, fx = 500, fy = 0, vx = 0, vy = 0, fvalue = 7, fstate = Free,
      heldBy = None, mouthTimers = Map.empty\<rparr>"

definition eating_room :: "real \<Rightarrow> food list \<Rightarrow> room" where
  "eating_room full fs =
     (createRoom ''lobby'')
       \<lparr>players := [player_a\<lparr>ready := True, fullness := full\<rparr>, player_b\<lparr>ready := True\<rparr>],
        foods := fs, nextFoodId := 4, started := True, time := 5\<rparr>"

text \<open>
  Foods for the pickup rule.  The tip of the left player at its spawn is at
  \<open>(361, HEIGHT / 2)\<close>: one food lies 10 units behind the tip, outside the cone but
  inside the point-blank radius, and one lies 100 units ahead of the tip, inside the cone.
\<close>

definition food_free :: "nat \<Rightarrow> real \<Rightarrow> real \<Rightarrow> food" where
  "food_free i a b =
     \<lparr>fid = i, fx = a, fy = b, vx = 0, vy = 0, fvalue = 7, fstate = Free,
      heldBy = None, mouthTimers = [''p_b'' \<mapsto> 1 / 10]\<rparr>"

text \<open>A free food after one tick of gravity that does not take it past the bottom.\<close>

definition after_fall :: "food \<Rightarrow> food" where
  "after_fall f =
     f\<lparr>fx := fx f + vx f * DT, fy := fy f + (vy f + GRAVITY * DT) * DT,
       vy := vy f + GRAVITY * DT\<rparr>"

text \<open>A random source whose every draw is one half.\<close>

definition half_rnd :: "nat \<Rightarrow> real" where
  "half_rnd i = 1 / 2"

text \<open>A match in which the left player holds food 4 at its chopstick tip.\<close>

definition holding_room :: room where
  "holding_room =
     (createRoom ''lobby'')
       \<lparr>players := [player_a\<lparr>holdingFoodId := Some 4\<rparr>, player_b],
        foods := [(food_free 4 351 270)\<lparr>fstate := Held, heldBy := Some ''p_a''\<rparr>],
        nextFoodId := 5, started := True\<rparr>"

section \<open>Properties\<close>

subsection \<open>Angles and distances\<close>

lemma wrap_up_spec: "- pi < wrap_up a \<and> (\<exists>k::int. wrap_up a = a + 2 * pi * of_int k) \<and> (- pi < a \<longrightarrow> wrap_up a = a)"
proof (induction a rule: wrap_up.induct)
  case (1 a)
  show ?case
  proof (cases "a \<le> - pi")
    case True
    from 1 [OF True] obtain k :: int where
      gt: "- pi < wrap_up (a + pi * 2)" and k: "wrap_up (a + pi * 2) = a + pi * 2 + 2 * pi * of_int k"
      by blast
    have step: "wrap_up a = wrap_up (a + pi * 2)"
      using True by (subst wrap_up.simps) simp
    have "wrap_up a = a + 2 * pi * of_int (k + 1)"
      using k step by (simp add: algebra_simps)
    then show ?thesis using gt step True by (metis not_le)
  next
    case False
    then have "wrap_up a = a" by (subst wrap_up.simps) simp
    moreover have "a = a + 2 * pi * of_int (0::int)" by simp
    ultimately show ?thesis using False by (metis not_le)
  qed
qed

lemma wrap_down_spec: "wrap_down a \<le> pi \<and> (\<exists>k::int. wrap_down a = a + 2 * pi * of_int k) \<and> (- pi < a \<longrightarrow> - pi < wrap_down a) \<and> (a \<le> pi \<longrightarrow> wrap_down a = a)"
proof (induction a rule: wrap_down.induct)
  case (1 a)
  show ?case
  proof (cases "pi < a")
    case True
    from 1 [OF True] obtain k :: int where
      le: "wrap_down (a - pi * 2) \<le> pi" and k: "wrap_down (a - pi * 2) = a - pi * 2 + 2 * pi * of_int k"
      and gt: "- pi < a - pi * 2 \<longrightarrow> - pi < wrap_down (a - pi * 2)"
      by blast
    have step: "wrap_down a = wrap_down (a - pi * 2)"
      using True by (subst wrap_down.simps) simp
    have "wrap_down a = a + 2 * pi * of_int (k - 1)"
      using k step by (simp add: algebra_simps)
    moreover have "- pi < a - pi * 2" using True by simp
    ultimately show ?thesis using gt le step True by (metis not_le)
  next
    case False
    then have "wrap_down a = a" by (subst wrap_down.simps) simp
    moreover have "a = a + 2 * pi * of_int (0::int)" by simp
    ultimately show ?thesis using False by (metis not_le)
  qed
qed


lemma wrapAngle_range: "- pi < wrapAngle a \<and> wrapAngle a \<le> pi"
  using wrap_up_spec [of a] wrap_down_spec [of "wrap_up a"] by (simp add: wrapAngle_def)

lemma wrapAngle_shift: "\<exists>k::int. wrapAngle a = a + 2 * pi * of_int k"
proof -
  obtain j :: int where j: "wrap_up a = a + 2 * pi * of_int j"
    using wrap_up_spec [of a] by blast
  obtain k :: int where k: "wrap_down (wrap_up a) = wrap_up a + 2 * pi * of_int k"
    using wrap_down_spec [of "wrap_up a"] by blast
  have "wrapAngle a = a + 2 * pi * of_int (j + k)"
    using j k by (simp add: wrapAngle_def algebra_simps)
  then show ?thesis ..
qed

lemma wrapAngle_id: "- pi < a \<Longrightarrow> a \<le> pi \<Longrightarrow> wrapAngle a = a"
  using wrap_up_spec [of a] wrap_down_spec [of a] by (simp add: wrapAngle_def)

lemma canonical_unique:
  fixes r s :: real and k :: int
  assumes "- pi < r" "r \<le> pi" "- pi < s" "s \<le> pi" "r = s + 2 * pi * of_int k"
  shows "r = s"
proof -
  have "\<bar>2 * pi * of_int k\<bar> < 2 * pi" using assms by linarith
  then have "2 * pi * \<bar>of_int k :: real\<bar> < 2 * pi * 1"
    by (simp add: abs_mult)
  then have "\<bar>of_int k :: real\<bar> < 1"
    by (simp only: mult_less_cancel_left_pos [OF mult_pos_pos [OF zero_less_numeral pi_gt_zero]])
  then have "k = 0" by linarith
  with assms show ?thesis by simp
qed

lemma wrapAngle_of_shift:
  assumes "- pi < s" "s \<le> pi"
  shows "wrapAngle (s + 2 * pi * of_int k) = s"
proof -
  obtain j :: int where j: "wrapAngle (s + 2 * pi * of_int k) = s + 2 * pi * of_int k + 2 * pi * of_int j"
    using wrapAngle_shift by blast
  then have "wrapAngle (s + 2 * pi * of_int k) = s + 2 * pi * of_int (k + j)"
    by (simp add: algebra_simps)
  with canonical_unique [OF _ _ assms] wrapAngle_range show ?thesis by blast
qed


lemma wrapAngle_0: "wrapAngle 0 = 0"
  by (intro wrapAngle_id) simp_all

lemma wrapAngle_pi: "wrapAngle pi = pi"
  by (intro wrapAngle_id) simp_all

lemma rotateTowards_same:
  assumes "- pi < a" "a \<le> pi" "0 \<le> m"
  shows "rotateTowards a a m = a"
  using assms by (simp add: rotateTowards_def wrapAngle_0 wrapAngle_id max_def min_def)

lemma hypot_le_iff: "0 \<le> c \<Longrightarrow> hypot a b \<le> c \<longleftrightarrow> a\<^sup>2 + b\<^sup>2 \<le> c\<^sup>2"
proof -
  assume c: "0 \<le> c"
  have "sqrt (a\<^sup>2 + b\<^sup>2) \<le> sqrt (c\<^sup>2) \<longleftrightarrow> a\<^sup>2 + b\<^sup>2 \<le> c\<^sup>2"
    by (rule real_sqrt_le_iff)
  then show ?thesis using c by (simp add: hypot_def)
qed

lemma wrapAngle_half: "wrapAngle (1 / 2) = 1 / 2"
  using pi_ge_two by (intro wrapAngle_id) simp_all

lemma wrapAngle_1: "wrapAngle 1 = 1"
  using pi_ge_two by (intro wrapAngle_id) simp_all

text \<open>
  The rotation on the reals, where both loops end.  For every current angle, target
  angle and non-negative \<open>maxDelta\<close>, the result of \<open>rotateTowards\<close> lies in \<open>(-\<pi>, \<pi>]\<close>;
  its wrapped difference from the current angle is at most \<open>maxDelta\<close> in absolute value
  and equals the shortest wrapped difference to the target clamped to
  \<open>[-maxDelta, maxDelta]\<close>, so it has the sign of the shortest path and never passes the
  target; when the target is within reach the result is the target, wrapped.
\<close>

theorem rotateTowards_bounded:
  assumes "0 \<le> maxDelta"
  shows "- pi < rotateTowards current target maxDelta
       \<and> rotateTowards current target maxDelta \<le> pi
       \<and> \<bar>wrapAngle (rotateTowards current target maxDelta - current)\<bar> \<le> maxDelta
       \<and> wrapAngle (rotateTowards current target maxDelta - current)
            = max (- maxDelta) (min maxDelta (wrapAngle (target - current)))
       \<and> (0 \<le> wrapAngle (target - current) \<longrightarrow>
            0 \<le> wrapAngle (rotateTowards current target maxDelta - current)
          \<and> wrapAngle (rotateTowards current target maxDelta - current) \<le> wrapAngle (target - current))
       \<and> (wrapAngle (target - current) \<le> 0 \<longrightarrow>
            wrapAngle (target - current) \<le> wrapAngle (rotateTowards current target maxDelta - current)
          \<and> wrapAngle (rotateTowards current target maxDelta - current) \<le> 0)
       \<and> (\<bar>wrapAngle (target - current)\<bar> \<le> maxDelta \<longrightarrow>
            rotateTowards current target maxDelta = wrapAngle target)"
proof -
  define delta where "delta = wrapAngle (target - current)"
  define clamped where "clamped = max (- maxDelta) (min maxDelta delta)"
  define r where "r = rotateTowards current target maxDelta"
  have r: "r = wrapAngle (current + clamped)"
    by (simp add: r_def rotateTowards_def clamped_def delta_def Let_def)
  have d: "- pi < delta" "delta \<le> pi"
    using wrapAngle_range [of "target - current"] by (simp_all add: delta_def)
  have c: "- pi < clamped" "clamped \<le> pi" "\<bar>clamped\<bar> \<le> maxDelta"
    using d assms by (auto simp: clamped_def max_def min_def)
  have rng: "- pi < r" "r \<le> pi"
    using wrapAngle_range [of "current + clamped"] by (simp_all add: r)
  obtain k :: int where k: "r = current + clamped + 2 * pi * of_int k"
    using wrapAngle_shift [of "current + clamped"] r by auto
  have "r - current = clamped + 2 * pi * of_int k" using k by simp
  then have step: "wrapAngle (r - current) = clamped"
    using wrapAngle_of_shift [OF c(1,2)] by simp
  have reach: "r = wrapAngle target" if "\<bar>delta\<bar> \<le> maxDelta"
  proof -
    from that have "clamped = delta" by (auto simp: clamped_def max_def min_def)
    moreover obtain j :: int where "delta = target - current + 2 * pi * of_int j"
      using wrapAngle_shift [of "target - current"] delta_def by auto
    ultimately have "r = target + 2 * pi * of_int (j + k)"
      using k by (simp add: algebra_simps)
    moreover obtain i :: int where "wrapAngle target = target + 2 * pi * of_int i"
      using wrapAngle_shift by blast
    ultimately have "r = wrapAngle target + 2 * pi * of_int (j + k - i)"
      by (simp add: algebra_simps)
    with canonical_unique [OF rng] wrapAngle_range [of target] show ?thesis by blast
  qed
  have dir1: "0 \<le> delta \<longrightarrow> 0 \<le> clamped \<and> clamped \<le> delta"
    using assms by (auto simp: clamped_def max_def min_def)
  have dir2: "delta \<le> 0 \<longrightarrow> delta \<le> clamped \<and> clamped \<le> 0"
    using assms by (auto simp: clamped_def max_def min_def)
  show ?thesis
    using rng c(3) step reach dir1 dir2
    unfolding r_def [symmetric] delta_def [symmetric] clamped_def [symmetric]
    by simp
qed


theorem rotateTowards_bounded_witness:
  "(0::real) \<le> 1 / 2 \<and> 0 \<le> wrapAngle (1 - 0) \<and> rotateTowards 0 1 (1 / 2) = 1 / 2
   \<and> \<bar>wrapAngle (rotateTowards 0 1 (1 / 2) - 0)\<bar> \<le> 1 / 2
   \<and> (0::real) \<le> 2 \<and> wrapAngle (0 - 1) \<le> 0 \<and> \<bar>wrapAngle (0 - 1)\<bar> \<le> 2
   \<and> rotateTowards 1 0 2 = wrapAngle 0"
proof -
  have h: "(0::real) \<le> 1 / 2" and h2: "(0::real) \<le> 2" by simp_all
  have m1: "wrapAngle (- 1) = - 1"
    using pi_ge_two by (intro wrapAngle_id) simp_all
  have "rotateTowards 0 1 (1 / 2) = 1 / 2"
    by (simp add: rotateTowards_def wrapAngle_1 wrapAngle_half Let_def)
  then show ?thesis
    using rotateTowards_bounded [OF h, of 0 1] rotateTowards_bounded [OF h2, of 1 0]
    by (simp add: wrapAngle_1 m1)
qed

text \<open>Rounding at a large power of two: a subtrahend below 8 is absorbed.\<close>

lemma round_even_int: "round_even (of_int k) = k"
  by (simp add: round_even_def)

lemma round_even_below:
  assumes "0 < t" "t < 1 / 2"
  shows "round_even (of_int k - t) = k"
proof -
  have f: "\<lfloor>of_int k - t\<rfloor> = k - 1"
    using assms by (simp add: floor_eq_iff)
  have "1 / 2 < of_int k - t - of_int (k - 1)" using assms by simp
  then show ?thesis
    unfolding round_even_def f Let_def by simp
qed

lemma to_double_pow2: "to_double (2 ^ n) = 2 ^ n"
proof -
  have l: "\<lfloor>log 2 \<bar>2 ^ n :: real\<bar>\<rfloor> = int n" by simp
  have q: "(2::real) ^ n / 2 powr of_int (int n - 52) = of_int (2 ^ 52)"
  proof -
    have "(2::real) ^ n = 2 powr of_int (int n)" by (simp add: powr_realpow)
    then have "(2::real) ^ n / 2 powr of_int (int n - 52) = 2 powr (of_int (int n) - of_int (int n - 52))"
      by (simp add: powr_diff)
    also have "\<dots> = 2 powr real (52::nat)" by simp
    also have "\<dots> = 2 ^ 52" by (rule powr_realpow) simp
    finally show ?thesis by simp
  qed
  have unq: "of_int (2 ^ 52) * 2 powr of_int (int n - 52) = (2::real) ^ n"
    using q by (simp add: field_simps)
  show ?thesis
    unfolding to_double_def l Let_def q round_even_int using unq by simp
qed

lemma to_double_absorb:
  assumes n: "60 \<le> n" and c: "0 < c" "c < 8"
  shows "to_double (2 ^ n - c) = 2 ^ n"
proof -
  obtain m where m: "n = m + 60" using n by (metis add.commute le_Suc_ex)
  let ?x = "(2::real) ^ n - c"
  have big: "(16::real) \<le> 2 ^ (n - 1)"
  proof -
    have "(2::real) ^ 4 \<le> 2 ^ (n - 1)" using n by (intro power_increasing) simp_all
    then show ?thesis by simp
  qed
  have dbl: "(2::real) ^ n = 2 * 2 ^ (n - 1)"
    using n by (cases n) simp_all
  have lo: "(2::real) ^ (n - 1) \<le> ?x" using big c dbl by simp
  have hi: "?x < 2 ^ n" using c by simp
  have pos: "0 < ?x" using lo big by simp
  have l: "\<lfloor>log 2 \<bar>?x\<bar>\<rfloor> = int n - 1"
  proof -
    have "2 powr of_int (int n - 1) \<le> ?x \<and> ?x < 2 powr of_int (int n - 1 + 1)"
    proof
      have "2 powr of_int (int n - 1) = (2::real) powr real (n - 1)"
        using n by (simp add: of_nat_diff)
      also have "\<dots> = 2 ^ (n - 1)" by (rule powr_realpow) simp
      finally show "2 powr of_int (int n - 1) \<le> ?x" using lo by simp
      have "2 powr of_int (int n - 1 + 1) = (2::real) powr real n" by simp
      also have "\<dots> = 2 ^ n" by (rule powr_realpow) simp
      finally show "?x < 2 powr of_int (int n - 1 + 1)" using hi by simp
    qed
    then have "\<lfloor>log 2 ?x\<rfloor> = int n - 1"
      using pos by (simp add: floor_log_eq_powr_iff)
    then show ?thesis using pos by simp
  qed
  have q: "2 powr of_int (int n - 1 - 52) = (2::real) ^ (n - 53)"
  proof -
    have "2 powr of_int (int n - 1 - 52) = (2::real) powr real (n - 53)"
      using n by (simp add: of_nat_diff)
    also have "\<dots> = 2 ^ (n - 53)" by (rule powr_realpow) simp
    finally show ?thesis .
  qed
  have "n = 53 + (n - 53)" using n by simp
  then have "(2::real) ^ n = 2 ^ (53 + (n - 53))" by simp
  then have split: "(2::real) ^ n = 2 ^ 53 * 2 ^ (n - 53)"
    by (simp only: power_add)
  have q128: "(128::real) \<le> 2 ^ (n - 53)"
  proof -
    have "(2::real) ^ 7 \<le> 2 ^ (n - 53)" using n by (intro power_increasing) simp_all
    then show ?thesis by simp
  qed
  define t where "t = c / 2 ^ (n - 53)"
  have t: "0 < t" "t < 1 / 2"
  proof -
    show "0 < t" using c by (simp add: t_def)
    have "c / 2 ^ (n - 53) \<le> c / 128"
      using q128 c by (intro divide_left_mono) simp_all
    moreover have "c / 128 < 1 / 2" using c by simp
    ultimately show "t < 1 / 2" unfolding t_def by (rule le_less_trans)
  qed
  have quot: "?x / 2 ^ (n - 53) = of_int (2 ^ 53) - t"
    unfolding t_def by (subst split) (simp add: diff_divide_distrib)
  have nz: "?x \<noteq> 0" using pos by simp
  have "to_double ?x = of_int (round_even (?x / 2 ^ (n - 53))) * 2 ^ (n - 53)"
    by (simp only: to_double_def nz if_False l q Let_def)
  also have "\<dots> = of_int (2 ^ 53) * 2 ^ (n - 53)"
    unfolding quot round_even_below [OF t] ..
  also have "\<dots> = 2 ^ n" using split by simp
  finally show ?thesis .
qed

lemma wrap_down_d_stuck:
  assumes "PI_D < a" and "to_double (a - PI_D * 2) = a"
  shows "wrap_down_d a = None"
proof (rule ccontr)
  assume "wrap_down_d a \<noteq> None"
  then obtain y where y: "wrap_down_d a = Some y" by auto
  have "a \<noteq> a"
  proof (rule wrap_down_d.raw_induct [where P = "\<lambda>x y. x \<noteq> a", OF _ y])
    fix f :: "real \<Rightarrow> real option" and x z
    assume ih: "\<And>x y. f x = Some y \<Longrightarrow> x \<noteq> a"
      and step: "(if PI_D < x then f (to_double (x - PI_D * 2)) else Some x) = Some z"
    show "x \<noteq> a"
    proof
      assume "x = a"
      with step assms have "f a = Some z" by simp
      from ih [OF this] show False by simp
    qed
  qed
  then show False by simp
qed

lemma PI_D_bounds: "3 < PI_D" "PI_D < 4"
  by (simp_all add: PI_D_def)

text \<open>
  Claim C6 says that for all finite angle pairs and non-negative \<open>maxDelta\<close> the rotation
  returns an angle in \<open>(-\<pi>, \<pi>]\<close> within \<open>maxDelta\<close> of the current one, which is what holds
  on the reals.  The angles of the source are doubles.  The target \<open>2\<^sup>1\<^sup>0\<^sup>0\<^sup>0\<close> is a finite
  double, which an input message can carry as its aim.  With it the second loop of
  \<^verbatim>\<open>wrapAngle\<close> subtracts \<^verbatim>\<open>Math.PI * 2\<close> and gets the same number back, so the loop does
  not end and \<^verbatim>\<open>rotateTowards(0, 2 ** 1000, 0.0625)\<close> returns nothing.
\<close>

theorem rotateTowards_d_diverges: "rotateTowards_d 0 (2 ^ 1000) (1 / 16) = None"
proof -
  have c: "0 < PI_D * 2" "PI_D * 2 < 8" using PI_D_bounds by simp_all
  have stuck: "to_double (2 ^ 1000 - PI_D * 2) = 2 ^ 1000"
    by (rule to_double_absorb [OF _ c]) simp
  have gt: "PI_D < 2 ^ 1000"
  proof -
    have "(2::real) ^ 2 \<le> 2 ^ 1000" by (intro power_increasing) simp_all
    then show ?thesis using PI_D_bounds by simp
  qed
  have down: "wrap_down_d (2 ^ 1000) = None"
    by (rule wrap_down_d_stuck [OF gt stuck])
  have up: "wrap_up_d (2 ^ 1000) = Some (2 ^ 1000)"
    using gt PI_D_bounds by (subst wrap_up_d.simps) simp
  have first: "to_double (2 ^ 1000 - 0) = 2 ^ 1000"
    using to_double_pow2 [of 1000] by simp
  have "wrapAngle_d (2 ^ 1000) = None"
    by (simp only: wrapAngle_d_def up down option.case)
  then show ?thesis
    by (simp only: rotateTowards_d_def first option.case)
qed

subsection \<open>Assignments inside lists\<close>

lemma map_fid_update_first:
  assumes "\<And>a. fid (g a) = fid a"
  shows "map fid (update_first P g xs) = map fid xs"
  using assms by (induction xs) simp_all

lemma find_none: "(\<forall>g \<in> set xs. \<not> P g) \<Longrightarrow> find P xs = None"
  by (induction xs) simp_all

subsection \<open>Ready messages and the start of a match\<close>

lemma start_player_fields:
  "fullness (start_player q) = 0 \<and> holdingFoodId (start_player q) = None
   \<and> py (start_player q) = HEIGHT / 2
   \<and> pid (start_player q) = pid q \<and> side (start_player q) = side q
   \<and> ready (start_player q) = ready q
   \<and> (side q = Left \<longrightarrow> px (start_player q) = 180 \<and> angle (start_player q) = 0)
   \<and> (side q = Right \<longrightarrow> px (start_player q) = WIDTH - 180 \<and> angle (start_player q) = pi)"
  by (simp add: start_player_def Let_def)

text \<open>
  Claim C3.  When a ready message has been applied to the sender's flag and the room then
  holds exactly two players, all of them ready, the handler returns the room that
  \<open>startRoom\<close> makes of it: started, no foods, elapsed time and spawn accumulator zero,
  every player with fullness zero and no held food, vertically centred, the left player
  at \<open>x = 180\<close> facing angle 0 and the right player at \<open>x = WIDTH - 180\<close> facing \<open>\<pi>\<close>.
\<close>

theorem ready_starts_room:
  assumes ty: "get_field msg ''type'' = JString ''ready''"
    and r': "r' = r\<lparr>players := update_player k
                     (\<lambda>q. q\<lparr>ready := toBoolean (get_field msg ''ready'')\<rparr>) (players r)\<rparr>"
    and two: "length (players r') = 2"
    and all: "\<forall>q \<in> set (players r'). ready q"
  shows "on_message conv r k (Parsed msg) = Inr (startRoom r')
       \<and> started (startRoom r') \<and> \<not> gameOver (startRoom r')
       \<and> foods (startRoom r') = [] \<and> time (startRoom r') = 0
       \<and> lastSpawnTime (startRoom r') = 0
       \<and> map pid (players (startRoom r')) = map pid (players r)
       \<and> map side (players (startRoom r')) = map side (players r)
       \<and> (\<forall>q \<in> set (players (startRoom r')).
             fullness q = 0 \<and> holdingFoodId q = None \<and> py q = HEIGHT / 2
           \<and> (side q = Left \<longrightarrow> px q = 180 \<and> angle q = 0)
           \<and> (side q = Right \<longrightarrow> px q = WIDTH - 180 \<and> angle q = pi))"
proof -
  have nn: "msg \<noteq> JNull" "msg \<noteq> JUndefined"
    using ty by (auto simp: get_field_def)
  have ar: "allReady r'"
    using two all by (simp add: allReady_def list_all_iff)
  have run: "on_message conv r k (Parsed msg) = Inr (startRoom r')"
    using nn ty ar by (simp add: on_message_def r' Let_def)
  have ids: "map pid (players (startRoom r')) = map pid (players r)"
    by (simp add: startRoom_def r' update_player_def start_player_fields comp_def)
  have sides: "map side (players (startRoom r')) = map side (players r)"
    by (simp add: startRoom_def r' update_player_def start_player_fields comp_def)
  have each: "\<forall>q \<in> set (players (startRoom r')).
             fullness q = 0 \<and> holdingFoodId q = None \<and> py q = HEIGHT / 2
           \<and> (side q = Left \<longrightarrow> px q = 180 \<and> angle q = 0)
           \<and> (side q = Right \<longrightarrow> px q = WIDTH - 180 \<and> angle q = pi)"
    using start_player_fields by (auto simp: startRoom_def)
  show ?thesis
    using run ids sides each by (simp add: startRoom_def)
qed

theorem ready_starts_room_witness:
  "get_field (ready_msg True) ''type'' = JString ''ready''
   \<and> length (players (lobby_room\<lparr>players := update_player ''p_b''
         (\<lambda>q. q\<lparr>ready := toBoolean (get_field (ready_msg True) ''ready'')\<rparr>)
         (players lobby_room)\<rparr>)) = 2
   \<and> map ready (players (lobby_room\<lparr>players := update_player ''p_b''
         (\<lambda>q. q\<lparr>ready := toBoolean (get_field (ready_msg True) ''ready'')\<rparr>)
         (players lobby_room)\<rparr>)) = [True, True]
   \<and> (\<exists>r''. on_message no_conv lobby_room ''p_b'' (Parsed (ready_msg True)) = Inr r''
         \<and> started r'' \<and> foods r'' = []
         \<and> map px (players r'') = [180, WIDTH - 180]
         \<and> map angle (players r'') = [0, pi])"
proof -
  let ?r' = "lobby_room\<lparr>players := update_player ''p_b''
         (\<lambda>q. q\<lparr>ready := toBoolean (get_field (ready_msg True) ''ready'')\<rparr>)
         (players lobby_room)\<rparr>"
  have ty: "get_field (ready_msg True) ''type'' = JString ''ready''"
    by (simp add: get_field_def ready_msg_def)
  have two: "length (players ?r') = 2"
    by (simp add: lobby_room_def update_player_def)
  have all: "\<forall>q \<in> set (players ?r'). ready q"
    by (simp add: lobby_room_def update_player_def player_a_def player_b_def
        get_field_def ready_msg_def toBoolean_def)
  have pos: "map px (players (startRoom ?r')) = [180, WIDTH - 180]"
    "map angle (players (startRoom ?r')) = [0, pi]"
    by (simp_all add: startRoom_def lobby_room_def update_player_def player_a_def
        player_b_def start_player_def Let_def)
  have flags: "map ready (players ?r') = [True, True]"
    by (simp add: lobby_room_def update_player_def player_a_def player_b_def
        get_field_def ready_msg_def toBoolean_def)
  from ready_starts_room [OF ty refl two all, of no_conv] ty two flags pos
  show ?thesis by simp
qed

lemma on_message_ready:
  assumes "get_field msg ''type'' = JString ''ready''"
  shows "on_message conv r k (Parsed msg) =
     Inr (let r' = r\<lparr>players := update_player k
                     (\<lambda>q. q\<lparr>ready := toBoolean (get_field msg ''ready'')\<rparr>) (players r)\<rparr>
          in if allReady r' then startRoom r' else r')"
proof -
  have "msg \<noteq> JNull" "msg \<noteq> JUndefined"
    using assms by (auto simp: get_field_def)
  then show ?thesis using assms by (simp add: on_message_def Let_def)
qed

text \<open>
  Claim C4 says that a ready message received while the room is running (\<open>started\<close> and
  not \<open>gameOver\<close>) leaves the room unchanged.  The handler has no such guard.  In the
  running sample room a message \<^verbatim>\<open>{type:"ready", ready:true}\<close> restarts the match through
  \<open>startRoom\<close> (the elapsed time falls from 5 to 0), and \<^verbatim>\<open>{type:"ready", ready:false}\<close>
  clears the sender's flag.
\<close>

theorem ready_while_running_counterexample:
  "started running_room \<and> \<not> gameOver running_room
   \<and> get_field (ready_msg True) ''type'' = JString ''ready''
   \<and> on_message no_conv running_room ''p_b'' (Parsed (ready_msg True)) \<noteq> Inr running_room
   \<and> on_message no_conv running_room ''p_b'' (Parsed (ready_msg False)) \<noteq> Inr running_room"
proof -
  have ty: "get_field (ready_msg b) ''type'' = JString ''ready''" for b
    by (simp add: get_field_def ready_msg_def)
  have t: "on_message no_conv running_room ''p_b'' (Parsed (ready_msg True)) =
      Inr (startRoom running_room)"
    by (subst on_message_ready [OF ty])
      (simp add: Let_def running_room_def update_player_def player_a_def player_b_def
        get_field_def ready_msg_def toBoolean_def allReady_def createRoom_def)
  have f: "on_message no_conv running_room ''p_b'' (Parsed (ready_msg False)) =
      Inr (running_room\<lparr>players := [player_a\<lparr>ready := True, fullness := 40\<rparr>, player_b]\<rparr>)"
    by (subst on_message_ready [OF ty])
      (simp add: Let_def running_room_def update_player_def player_a_def player_b_def
        get_field_def ready_msg_def toBoolean_def allReady_def createRoom_def)
  have "time (startRoom running_room) \<noteq> time running_room"
    by (simp add: startRoom_def running_room_def)
  then have ne1: "startRoom running_room \<noteq> running_room" by metis
  have "map ready (players (running_room\<lparr>players := [player_a\<lparr>ready := True, fullness := 40\<rparr>, player_b]\<rparr>))
      \<noteq> map ready (players running_room)"
    by (simp add: running_room_def player_b_def)
  then have ne2: "running_room\<lparr>players := [player_a\<lparr>ready := True, fullness := 40\<rparr>, player_b]\<rparr> \<noteq> running_room"
    by metis
  show ?thesis using t f ne1 ne2 ty by (simp add: running_room_def createRoom_def)
qed

text \<open>
  Claim C4, amended.  A ready message received while the room is running is applied as at
  any other time: the sender's ready flag becomes \<^verbatim>\<open>Boolean(msg.ready)\<close>.  If the room then
  has at least two players, all ready, the match is restarted by \<open>startRoom\<close> (time zero,
  no foods, every fullness zero); otherwise the room stays running and nothing but the
  sender's ready flag differs.
\<close>

theorem ready_while_running:
  assumes ty: "get_field msg ''type'' = JString ''ready''"
    and run: "started r" "\<not> gameOver r"
    and r': "r' = r\<lparr>players := update_player k
                     (\<lambda>q. q\<lparr>ready := toBoolean (get_field msg ''ready'')\<rparr>) (players r)\<rparr>"
  shows "(2 \<le> length (players r) \<and> (\<forall>q \<in> set (players r'). ready q) \<longrightarrow>
            on_message conv r k (Parsed msg) = Inr (startRoom r')
          \<and> started (startRoom r') \<and> time (startRoom r') = 0 \<and> foods (startRoom r') = []
          \<and> (\<forall>q \<in> set (players (startRoom r')). fullness q = 0 \<and> holdingFoodId q = None))
       \<and> (\<not> (2 \<le> length (players r) \<and> (\<forall>q \<in> set (players r'). ready q)) \<longrightarrow>
            on_message conv r k (Parsed msg) = Inr r'
          \<and> started r' \<and> \<not> gameOver r' \<and> time r' = time r \<and> foods r' = foods r
          \<and> map (\<lambda>q. q\<lparr>ready := False\<rparr>) (players r') = map (\<lambda>q. q\<lparr>ready := False\<rparr>) (players r)
          \<and> (\<forall>q \<in> set (players r). pid q \<noteq> k \<longrightarrow> q \<in> set (players r')))"
proof -
  have len: "length (players r') = length (players r)"
    by (simp add: r' update_player_def)
  have ar: "allReady r' \<longleftrightarrow> 2 \<le> length (players r) \<and> (\<forall>q \<in> set (players r'). ready q)"
    using len by (auto simp: allReady_def list_all_iff)
  have res: "on_message conv r k (Parsed msg) = Inr (if allReady r' then startRoom r' else r')"
    using on_message_ready [OF ty, of conv r k] by (simp add: r' Let_def)
  have st: "started (startRoom r') \<and> time (startRoom r') = 0 \<and> foods (startRoom r') = []
          \<and> (\<forall>q \<in> set (players (startRoom r')). fullness q = 0 \<and> holdingFoodId q = None)"
    using start_player_fields by (auto simp: startRoom_def)
  have same: "map (\<lambda>q. q\<lparr>ready := False\<rparr>) (players r') = map (\<lambda>q. q\<lparr>ready := False\<rparr>) (players r)"
    by (simp add: r' update_player_def comp_def if_distrib [of "\<lambda>q. q\<lparr>ready := False\<rparr>"] cong: if_cong)
  have others: "\<forall>q \<in> set (players r). pid q \<noteq> k \<longrightarrow> q \<in> set (players r')"
    by (force simp: r' update_player_def)
  have keep: "started r' \<and> \<not> gameOver r' \<and> time r' = time r \<and> foods r' = foods r"
    using run by (simp add: r')
  show ?thesis
    using ar res st same others keep by simp
qed

theorem ready_while_running_witness:
  "get_field (ready_msg True) ''type'' = JString ''ready''
   \<and> get_field (ready_msg False) ''type'' = JString ''ready''
   \<and> started running_room \<and> \<not> gameOver running_room
   \<and> 2 \<le> length (players running_room)
   \<and> on_message no_conv running_room ''p_b'' (Parsed (ready_msg True))
       = Inr (startRoom running_room)
   \<and> time (startRoom running_room) = 0
   \<and> on_message no_conv running_room ''p_b'' (Parsed (ready_msg False))
       = Inr (running_room\<lparr>players := [player_a\<lparr>ready := True, fullness := 40\<rparr>, player_b]\<rparr>)
   \<and> (player_a\<lparr>ready := True, fullness := 40\<rparr>) \<in> set (players running_room)
   \<and> pid (player_a\<lparr>ready := True, fullness := 40\<rparr>) \<noteq> ''p_b''"
proof -
  have ty: "get_field (ready_msg b) ''type'' = JString ''ready''" for b
    by (simp add: get_field_def ready_msg_def)
  have run: "started running_room" "\<not> gameOver running_room"
    by (simp_all add: running_room_def createRoom_def)
  have up_t: "running_room\<lparr>players := update_player ''p_b''
        (\<lambda>q. q\<lparr>ready := toBoolean (get_field (ready_msg True) ''ready'')\<rparr>)
        (players running_room)\<rparr> = running_room"
    by (simp add: running_room_def update_player_def player_a_def player_b_def
        get_field_def ready_msg_def toBoolean_def)
  have up_f: "running_room\<lparr>players := update_player ''p_b''
        (\<lambda>q. q\<lparr>ready := toBoolean (get_field (ready_msg False) ''ready'')\<rparr>)
        (players running_room)\<rparr>
      = running_room\<lparr>players := [player_a\<lparr>ready := True, fullness := 40\<rparr>, player_b]\<rparr>"
    by (simp add: running_room_def update_player_def player_a_def player_b_def
        get_field_def ready_msg_def toBoolean_def)
  have facts: "2 \<le> length (players running_room)"
    "\<forall>q \<in> set (players running_room). ready q"
    "\<not> (\<forall>q \<in> set (players (running_room\<lparr>players := [player_a\<lparr>ready := True, fullness := 40\<rparr>, player_b]\<rparr>)). ready q)"
    "(player_a\<lparr>ready := True, fullness := 40\<rparr>) \<in> set (players running_room)"
    "pid (player_a\<lparr>ready := True, fullness := 40\<rparr>) \<noteq> ''p_b''"
    by (simp_all add: running_room_def player_a_def player_b_def)
  from ready_while_running [OF ty run up_t [symmetric], of no_conv]
    ready_while_running [OF ty run up_f [symmetric], of no_conv]
    ty run facts
  show ?thesis by simp
qed

subsection \<open>Input messages and the stored aim\<close>

lemma on_message_input:
  assumes "get_field msg ''type'' = JString ''input''" and "started r"
  shows "on_message conv r k (Parsed msg) =
     Inr (r\<lparr>players := map (\<lambda>q. if pid q = k then apply_input conv msg q else q) (players r)\<rparr>)"
proof -
  have "msg \<noteq> JNull" "msg \<noteq> JUndefined"
    using assms by (auto simp: get_field_def)
  then show ?thesis using assms by (simp add: on_message_def Let_def update_player_def)
qed

lemma aim_apply_input:
  "aim (input (apply_input conv msg q)) = number_or conv (get_field msg ''aim'') (aim (input q))"
  by (simp add: apply_input_def)

text \<open>
  Claim C10 says that an aim field that is 0, \<^verbatim>\<open>NaN\<close> or not a number leaves the stored aim
  as it was, and that only a nonzero number replaces it.  \<^verbatim>\<open>Number(msg.aim)\<close> converts
  before it tests: the message \<^verbatim>\<open>{type:"input", aim:true}\<close> carries no number, and the
  stored aim of the sender changes from \<open>\<pi>\<close> to 1.
\<close>

theorem input_aim_counterexample:
  "started running_room
   \<and> get_field (input_msg (JBool True)) ''type'' = JString ''input''
   \<and> get_field (input_msg (JBool True)) ''aim'' = JBool True
   \<and> on_message no_conv running_room ''p_b'' (Parsed (input_msg (JBool True)))
       = Inr (running_room\<lparr>players :=
                [player_a\<lparr>ready := True, fullness := 40\<rparr>,
                 player_b\<lparr>ready := True, input := (input player_b)\<lparr>aim := 1\<rparr>\<rparr>]\<rparr>)
   \<and> aim (input player_b) \<noteq> 1"
proof -
  have ty: "get_field (input_msg (JBool True)) ''type'' = JString ''input''"
    by (simp add: get_field_def input_msg_def)
  have st: "started running_room"
    by (simp add: running_room_def createRoom_def)
  have "on_message no_conv running_room ''p_b'' (Parsed (input_msg (JBool True)))
       = Inr (running_room\<lparr>players :=
                [player_a\<lparr>ready := True, fullness := 40\<rparr>,
                 player_b\<lparr>ready := True, input := (input player_b)\<lparr>aim := 1\<rparr>\<rparr>]\<rparr>)"
    by (subst on_message_input [OF ty st])
      (simp add: running_room_def player_a_def player_b_def apply_input_def number_or_def
        toNumber_def toBoolean_def get_field_def get_field_opt_def input_msg_def)
  moreover have "aim (input player_b) \<noteq> 1"
    using pi_ge_two by (simp add: player_b_def)
  moreover have "get_field (input_msg (JBool True)) ''aim'' = JBool True"
    by (simp add: get_field_def input_msg_def)
  ultimately show ?thesis using ty st by simp
qed

text \<open>
  Claim C10, amended.  For an input message processed while the room is started, the
  stored aim of the sender is kept exactly when \<^verbatim>\<open>Number(msg.aim)\<close> is \<^verbatim>\<open>NaN\<close> or 0 (so
  for the number 0, an absent aim, \<^verbatim>\<open>null\<close> and \<^verbatim>\<open>false\<close>); any other value replaces
  it by \<^verbatim>\<open>Number(msg.aim)\<close>: a nonzero number by itself, \<^verbatim>\<open>true\<close> by 1.  The other
  players are not touched.
\<close>

theorem input_aim:
  assumes ty: "get_field msg ''type'' = JString ''input''" and st: "started r"
  shows "on_message conv r k (Parsed msg) =
           Inr (r\<lparr>players := map (\<lambda>q. if pid q = k then apply_input conv msg q else q)
                               (players r)\<rparr>)
       \<and> (toNumber conv (get_field msg ''aim'') = None
            \<or> toNumber conv (get_field msg ''aim'') = Some 0
          \<longrightarrow> aim (input (apply_input conv msg q)) = aim (input q))
       \<and> (toNumber conv (get_field msg ''aim'') = Some a \<and> a \<noteq> 0
          \<longrightarrow> aim (input (apply_input conv msg q)) = a)
       \<and> (get_field msg ''aim'' = JNumber a \<and> a \<noteq> 0
          \<longrightarrow> aim (input (apply_input conv msg q)) = a)
       \<and> (get_field msg ''aim'' \<in> {JNumber 0, JUndefined, JNull, JBool False}
          \<longrightarrow> aim (input (apply_input conv msg q)) = aim (input q))
       \<and> (get_field msg ''aim'' = JBool True
          \<longrightarrow> aim (input (apply_input conv msg q)) = 1)"
  using on_message_input [OF ty st, of conv k]
  by (auto simp: aim_apply_input number_or_def toNumber_def)

theorem input_aim_witness:
  "started running_room
   \<and> get_field (input_msg (JNumber 2)) ''type'' = JString ''input''
   \<and> get_field (input_msg (JNumber 2)) ''aim'' = JNumber 2 \<and> (2::real) \<noteq> 0
   \<and> toNumber no_conv (get_field (input_msg (JNumber 2)) ''aim'') = Some 2
   \<and> aim (input (apply_input no_conv (input_msg (JNumber 2)) player_b)) = 2
   \<and> get_field (input_msg JNull) ''type'' = JString ''input''
   \<and> get_field (input_msg JNull) ''aim'' \<in> {JNumber 0, JUndefined, JNull, JBool False}
   \<and> toNumber no_conv (get_field (input_msg JNull) ''aim'') = Some 0
   \<and> aim (input (apply_input no_conv (input_msg JNull) player_b)) = pi
   \<and> get_field (input_msg (JBool True)) ''type'' = JString ''input''
   \<and> get_field (input_msg (JBool True)) ''aim'' = JBool True
   \<and> aim (input (apply_input no_conv (input_msg (JBool True)) player_b)) = 1
   \<and> (\<exists>r'. on_message no_conv running_room ''p_b'' (Parsed (input_msg (JNumber 2))) = Inr r')"
proof -
  have ty: "get_field (input_msg v) ''type'' = JString ''input''" for v
    by (simp add: get_field_def input_msg_def)
  have am: "get_field (input_msg v) ''aim'' = v" for v
    by (simp add: get_field_def input_msg_def)
  have st: "started running_room"
    by (simp add: running_room_def createRoom_def)
  have old: "aim (input player_b) = pi"
    by (simp add: player_b_def)
  have tn: "toNumber no_conv (JNumber 2) = Some 2" "toNumber no_conv JNull = Some 0"
    by (simp_all add: toNumber_def)
  from input_aim [OF ty [of "JNumber 2"] st, where conv = no_conv and k = "''p_b''"
      and q = player_b and a = 2]
    input_aim [OF ty [of JNull] st, where conv = no_conv and k = "''p_b''"
      and q = player_b and a = 0]
    input_aim [OF ty [of "JBool True"] st, where conv = no_conv and k = "''p_b''"
      and q = player_b and a = 0]
    ty st old tn
  show ?thesis by (simp add: am)
qed

subsection \<open>Pickup\<close>

lemma isInCone_pickable: "fstate f = Free \<and> isInCone p f \<longleftrightarrow> pickable p f"
  by (auto simp: isInCone_def pickable_def tip_distance_def bearing_offset_def Let_def)

lemma find_first_split:
  assumes "\<forall>g \<in> set pre. \<not> P g" and "P f"
  shows "find P (pre @ f # post) = Some f"
  using assms by (induction pre) simp_all

lemma update_first_split:
  assumes "\<forall>g \<in> set pre. \<not> P g" and "P f"
  shows "update_first P h (pre @ f # post) = pre @ h f # post"
  using assms by (induction pre) simp_all

lemma tip_player_a: "tipPosition (player_a\<lparr>ready := b, fullness := full\<rparr>) = (361, 270)"
  by (simp add: tipPosition_def player_a_def CHOPSTICK_LENGTH_def HEIGHT_def)

lemma far_not_pickable: "\<not> pickable (player_a\<lparr>ready := b, fullness := full\<rparr>) food_far"
  by (simp add: pickable_def tip_distance_def tip_player_a food_far_def hypot_le_iff
      CONE_RADIUS_def power2_eq_square)

lemma behind_tip:
  "tip_distance (player_a\<lparr>ready := b, fullness := full\<rparr>) (food_free i 351 270) = 10"
  "bearing_offset (player_a\<lparr>ready := b, fullness := full\<rparr>) (food_free i 351 270) = pi"
  by (simp_all add: tip_distance_def bearing_offset_def tip_player_a food_free_def hypot_def
      atan2_def wrapAngle_pi) (simp add: player_a_def wrapAngle_pi)

lemma ahead_of_tip:
  "tip_distance (player_a\<lparr>ready := b, fullness := full\<rparr>) (food_free i 461 270) = 100"
  "bearing_offset (player_a\<lparr>ready := b, fullness := full\<rparr>) (food_free i 461 270) = 0"
  by (simp_all add: tip_distance_def bearing_offset_def tip_player_a food_free_def hypot_def
      atan2_def wrapAngle_0) (simp add: player_a_def wrapAngle_0)

lemma free_food_free: "fstate (food_free i a b) = Free"
  by (simp add: food_free_def)

lemma held_update_first:
  "length (filter (\<lambda>g. fstate g = Held) (update_first P h xs))
     \<le> Suc (length (filter (\<lambda>g. fstate g = Held) xs))"
  by (induction xs) simp_all

lemma tryPickup_held_count:
  "length (filter (\<lambda>g. fstate g = Held) (foods (tryPickup a q)))
     \<le> length (filter (\<lambda>g. fstate g = Held) (foods a)) + 1"
  by (simp add: tryPickup_def held_update_first split: option.splits)

lemma pickup_round_held_count:
  "length (filter (\<lambda>g. fstate g = Held) (foods (for_each_player tryPickup r)))
     \<le> length (filter (\<lambda>g. fstate g = Held) (foods r)) + length (players r)"
proof -
  have "length (filter (\<lambda>g. fstate g = Held) (foods (fold (visit tryPickup) ks a)))
      \<le> length (filter (\<lambda>g. fstate g = Held) (foods a)) + length ks" for ks a
  proof (induction ks arbitrary: a)
    case Nil
    then show ?case by simp
  next
    case (Cons k ks)
    have "length (filter (\<lambda>g. fstate g = Held) (foods (visit tryPickup k a)))
        \<le> length (filter (\<lambda>g. fstate g = Held) (foods a)) + 1"
      using tryPickup_held_count by (simp add: visit_def split: option.splits)
    with Cons [of "visit tryPickup k a"] show ?case by simp
  qed
  from this [of "map pid (players r)" r] show ?thesis
    by (simp add: for_each_player_def)
qed

text \<open>
  Claim C5.  A player that holds a food picks up nothing.  A player with no held food
  picks up nothing when no food can be picked up, and otherwise exactly the first food in
  iteration order that is free, within the cone radius of the tip, and either within the
  point-blank radius or within the angular half-width of the facing angle: that food
  becomes held by the player with its dwell timers cleared, the player's
  \<open>holdingFoodId\<close> is set to its id, and every other food is as before.  One call of
  \<open>tryPickup\<close> adds at most one held food, and the tick's round of calls, one per
  player, adds at most as many as there are players.
\<close>

theorem tryPickup_first:
  "(truthy_id (holdingFoodId p) \<longrightarrow> tryPickup r p = r)
 \<and> (\<not> truthy_id (holdingFoodId p) \<longrightarrow>
      ((\<forall>g \<in> set (foods r). \<not> pickable p g) \<longrightarrow> tryPickup r p = r)
    \<and> (\<forall>pre f post. foods r = pre @ f # post \<and> (\<forall>g \<in> set pre. \<not> pickable p g)
            \<and> pickable p f \<longrightarrow>
          tryPickup r p =
            r\<lparr>foods := pre @ f\<lparr>fstate := Held, heldBy := Some (pid p),
                                 mouthTimers := Map.empty\<rparr> # post,
              players := map (\<lambda>q. if pid q = pid p then q\<lparr>holdingFoodId := Some (fid f)\<rparr>
                                  else q) (players r)\<rparr>))
 \<and> length (filter (\<lambda>g. fstate g = Held) (foods (tryPickup r p)))
      \<le> length (filter (\<lambda>g. fstate g = Held) (foods r)) + 1
 \<and> length (filter (\<lambda>g. fstate g = Held) (foods (for_each_player tryPickup r)))
      \<le> length (filter (\<lambda>g. fstate g = Held) (foods r)) + length (players r)
 \<and> map fid (foods (tryPickup r p)) = map fid (foods r)"
proof -
  let ?P = "\<lambda>f. fstate f = Free \<and> isInCone p f"
  have P: "?P = pickable p" by (rule ext) (rule isInCone_pickable)
  have holding: "tryPickup r p = r" if "truthy_id (holdingFoodId p)"
    using that by (simp add: tryPickup_def)
  have none: "tryPickup r p = r"
    if "\<not> truthy_id (holdingFoodId p)" "\<forall>g \<in> set (foods r). \<not> pickable p g"
    using that find_none [of "foods r" "pickable p"] by (simp add: tryPickup_def P)
  have some: "tryPickup r p =
            r\<lparr>foods := pre @ f\<lparr>fstate := Held, heldBy := Some (pid p),
                                 mouthTimers := Map.empty\<rparr> # post,
              players := map (\<lambda>q. if pid q = pid p then q\<lparr>holdingFoodId := Some (fid f)\<rparr>
                                  else q) (players r)\<rparr>"
    if nh: "\<not> truthy_id (holdingFoodId p)" and split: "foods r = pre @ f # post"
      and pre: "\<forall>g \<in> set pre. \<not> pickable p g" and f: "pickable p f" for pre f post
    using nh find_first_split [OF pre f, of post] update_first_split [OF pre f, of _ post]
    by (simp add: tryPickup_def P split update_player_def)
  have count: "length (filter (\<lambda>g. fstate g = Held) (foods (tryPickup r p)))
      \<le> length (filter (\<lambda>g. fstate g = Held) (foods r)) + 1
      \<and> map fid (foods (tryPickup r p)) = map fid (foods r)"
  proof (cases "\<not> truthy_id (holdingFoodId p) \<and> (\<exists>g \<in> set (foods r). pickable p g)")
    case True
    then have ex: "\<exists>g \<in> set (foods r). pickable p g" and nh: "\<not> truthy_id (holdingFoodId p)"
      by simp_all
    from split_list_first_prop [OF ex] obtain pre f post where
      s: "foods r = pre @ f # post" "pickable p f" "\<forall>g \<in> set pre. \<not> pickable p g" by blast
    have "fstate f = Free" using s(2) by (simp add: pickable_def)
    then show ?thesis
      unfolding some [OF nh s(1,3,2)] s(1) by simp
  next
    case False
    then have "tryPickup r p = r" using holding none by blast
    then show ?thesis by simp
  qed
  show ?thesis
    using holding none some count pickup_round_held_count [of r] by blast
qed

theorem tryPickup_first_witness:
  "\<not> truthy_id (holdingFoodId (player_a\<lparr>ready := True, fullness := 0\<rparr>))
   \<and> foods (eating_room 0 [food_far, food_free 4 351 270, food_free 5 461 270])
       = [food_far] @ food_free 4 351 270 # [food_free 5 461 270]
   \<and> \<not> pickable (player_a\<lparr>ready := True, fullness := 0\<rparr>) food_far
   \<and> pickable (player_a\<lparr>ready := True, fullness := 0\<rparr>) (food_free 4 351 270)
   \<and> CONE_HALF_ANGLE < bearing_offset (player_a\<lparr>ready := True, fullness := 0\<rparr>) (food_free 4 351 270)
   \<and> pickable (player_a\<lparr>ready := True, fullness := 0\<rparr>) (food_free 5 461 270)
   \<and> PICKUP_CLOSE_RADIUS < tip_distance (player_a\<lparr>ready := True, fullness := 0\<rparr>) (food_free 5 461 270)
   \<and> foods (tryPickup (eating_room 0 [food_far, food_free 4 351 270, food_free 5 461 270])
         (player_a\<lparr>ready := True, fullness := 0\<rparr>))
       = [food_far,
          (food_free 4 351 270)\<lparr>fstate := Held, heldBy := Some ''p_a'', mouthTimers := Map.empty\<rparr>,
          food_free 5 461 270]
   \<and> map holdingFoodId
        (players (tryPickup (eating_room 0 [food_far, food_free 4 351 270, food_free 5 461 270])
           (player_a\<lparr>ready := True, fullness := 0\<rparr>)))
       = [Some 4, None]
   \<and> tryPickup (eating_room 0 [food_far]) (player_a\<lparr>ready := True, fullness := 0\<rparr>)
       = eating_room 0 [food_far]
   \<and> truthy_id (holdingFoodId (player_a\<lparr>ready := True, fullness := 0, holdingFoodId := Some 4\<rparr>))
   \<and> tryPickup (eating_room 0 [food_far, food_free 4 351 270, food_free 5 461 270])
        (player_a\<lparr>ready := True, fullness := 0, holdingFoodId := Some 4\<rparr>)
       = eating_room 0 [food_far, food_free 4 351 270, food_free 5 461 270]"
proof -
  let ?p = "player_a\<lparr>ready := True, fullness := 0\<rparr>"
  let ?h = "player_a\<lparr>ready := True, fullness := 0, holdingFoodId := Some 4\<rparr>"
  let ?R = "eating_room 0 [food_far, food_free 4 351 270, food_free 5 461 270]"
  let ?Q = "eating_room 0 [food_far]"
  have nh: "\<not> truthy_id (holdingFoodId ?p)"
    by (simp add: truthy_id_def player_a_def)
  have h: "truthy_id (holdingFoodId ?h)"
    by (simp add: truthy_id_def)
  have split: "foods ?R = [food_far] @ food_free 4 351 270 # [food_free 5 461 270]"
    by (simp add: eating_room_def)
  have pre: "\<forall>g \<in> set [food_far]. \<not> pickable ?p g"
    using far_not_pickable by simp
  have noneQ: "\<forall>g \<in> set (foods ?Q). \<not> pickable ?p g"
    using far_not_pickable by (simp add: eating_room_def)
  have p4: "pickable ?p (food_free 4 351 270)"
    by (simp add: pickable_def behind_tip free_food_free CONE_RADIUS_def PICKUP_CLOSE_RADIUS_def)
  have p5: "pickable ?p (food_free 5 461 270)"
    by (simp add: pickable_def ahead_of_tip free_food_free CONE_RADIUS_def CONE_HALF_ANGLE_def)
  have out4: "CONE_HALF_ANGLE < bearing_offset ?p (food_free 4 351 270)"
    by (simp add: behind_tip CONE_HALF_ANGLE_def)
  have out5: "PICKUP_CLOSE_RADIUS < tip_distance ?p (food_free 5 461 270)"
    by (simp add: ahead_of_tip PICKUP_CLOSE_RADIUS_def)
  note picked = tryPickup_first [of ?p ?R, THEN conjunct2, THEN conjunct1, THEN mp, OF nh,
      THEN conjunct2, rule_format, OF conjI [OF split conjI [OF pre p4]]]
  note quiet = tryPickup_first [of ?p ?Q, THEN conjunct2, THEN conjunct1, THEN mp, OF nh,
      THEN conjunct1, THEN mp, OF noneQ]
  note busy = tryPickup_first [of ?h ?R, THEN conjunct1, THEN mp, OF h]
  have fs: "foods (tryPickup ?R ?p) = [food_far,
          (food_free 4 351 270)\<lparr>fstate := Held, heldBy := Some ''p_a'', mouthTimers := Map.empty\<rparr>,
          food_free 5 461 270]"
    unfolding picked by (simp add: player_a_def)
  have hs: "map holdingFoodId (players (tryPickup ?R ?p)) = [Some 4, None]"
    unfolding picked by (simp add: eating_room_def player_a_def player_b_def food_free_def)
  show ?thesis
    using nh h split far_not_pickable p4 p5 out4 out5 fs hs quiet busy by simp
qed

subsection \<open>Free-food physics\<close>

lemma respawn_bounds:
  assumes "0 \<le> a" "a < (1::real)"
  shows "80 \<le> 80 + a * (WIDTH - 160)" "80 + a * (WIDTH - 160) < WIDTH - 80"
    "- 8 \<le> (a - 1 / 2) * 16" "(a - 1 / 2) * 16 < 8"
  using assms by (simp_all add: WIDTH_def)

lemma updateFoods_list_respawned:
  assumes "\<forall>i. 0 \<le> rnd i \<and> rnd i < 1"
  shows "list_all2 (respawned dt) fs (fst (updateFoods_list rnd n dt fs))"
proof (induction fs arbitrary: n)
  case Nil
  then show ?case by simp
next
  case (Cons f fs)
  have r0: "0 \<le> rnd n" "rnd n < 1" "0 \<le> rnd (n + 1)" "rnd (n + 1) < 1"
    using assms by simp_all
  show ?case
  proof (cases "fstate f = Held")
    case True
    then show ?thesis
      using Cons [of n] by (simp add: split_beta respawned_def)
  next
    case False
    show ?thesis
    proof (cases "HEIGHT + 60 < fy f + (vy f + GRAVITY * dt) * dt")
      case True
      have "respawned dt f (f\<lparr>fx := 80 + rnd n * (WIDTH - 160), fy := - 20,
                      vx := (rnd (n + 1) - 1 / 2) * 16, vy := 0\<rparr>)"
        using False True respawn_bounds [OF r0(1,2)] respawn_bounds [OF r0(3,4)]
        by (simp add: respawned_def)
      then show ?thesis
        using False True Cons [of "n + 2"] by (simp add: split_beta Let_def)
    next
      case nofall: False
      have "respawned dt f (f\<lparr>fx := fx f + vx f * dt, fy := fy f + (vy f + GRAVITY * dt) * dt,
               vy := vy f + GRAVITY * dt\<rparr>)"
        using False nofall by (simp add: respawned_def)
      then show ?thesis
        using False nofall Cons [of n] by (simp add: split_beta Let_def)
    qed
  qed
qed

text \<open>
  Claim C7.  With every random draw in \<open>[0, 1)\<close>, the physics update keeps the number of
  foods and their ids in order, and changes nothing of the room but its foods.  Every food
  that is not held and whose \<open>y\<close> coordinate, after this tick's integration, exceeds
  \<open>HEIGHT + 60\<close> stays in the collection and is repositioned to \<open>y = -20\<close> with \<open>x\<close> in
  \<open>[80, WIDTH - 80)\<close>, horizontal velocity in \<open>[-8, 8)\<close> and vertical velocity 0.
\<close>

theorem updateFoods_recycles:
  assumes "\<forall>i. 0 \<le> rnd i \<and> rnd i < 1"
  shows "length (foods (fst (updateFoods rnd n r dt))) = length (foods r)
       \<and> map fid (foods (fst (updateFoods rnd n r dt))) = map fid (foods r)
       \<and> list_all2 (respawned dt) (foods r) (foods (fst (updateFoods rnd n r dt)))
       \<and> fst (updateFoods rnd n r dt) = r\<lparr>foods := foods (fst (updateFoods rnd n r dt))\<rparr>"
proof -
  have rel: "list_all2 (respawned dt) (foods r) (foods (fst (updateFoods rnd n r dt)))"
    using updateFoods_list_respawned [OF assms, of dt "foods r" n]
    by (simp add: updateFoods_def split_beta)
  have ids: "fid f' = fid f" if "respawned dt f f'" for f f'
    using that by (cases "fstate f = Held";
        cases "HEIGHT + 60 < fy f + (vy f + GRAVITY * dt) * dt") (auto simp: respawned_def)
  have "list_all2 (\<lambda>f f'. fid f = fid f') (foods r) (foods (fst (updateFoods rnd n r dt)))"
    using rel ids by (auto elim!: list_all2_mono)
  then have "map fid (foods r) = map fid (foods (fst (updateFoods rnd n r dt)))"
    by (simp add: list.rel_eq [symmetric] list.rel_map)
  then have m: "map fid (foods (fst (updateFoods rnd n r dt))) = map fid (foods r)"
    by simp
  show ?thesis
    using rel m list_all2_lengthD [OF rel] by (simp add: updateFoods_def split_beta)
qed

theorem updateFoods_recycles_witness:
  "(\<forall>i. 0 \<le> half_rnd i \<and> half_rnd i < 1)
   \<and> fstate (food_free 6 300 650) \<noteq> Held
   \<and> HEIGHT + 60 < fy (food_free 6 300 650) + (vy (food_free 6 300 650) + GRAVITY * DT) * DT
   \<and> fstate ((food_free 7 300 100)\<lparr>fstate := Held\<rparr>) = Held
   \<and> foods (fst (updateFoods half_rnd 0
        (eating_room 0 [food_free 6 300 650, (food_free 7 300 100)\<lparr>fstate := Held\<rparr>]) DT))
      = [(food_free 6 300 650)\<lparr>fx := 480, fy := - 20, vx := 0, vy := 0\<rparr>,
         (food_free 7 300 100)\<lparr>fstate := Held\<rparr>]
   \<and> length (foods (fst (updateFoods half_rnd 0
        (eating_room 0 [food_free 6 300 650, (food_free 7 300 100)\<lparr>fstate := Held\<rparr>]) DT))) = 2"
proof -
  let ?R = "eating_room 0 [food_free 6 300 650, (food_free 7 300 100)\<lparr>fstate := Held\<rparr>]"
  have h: "\<forall>i. 0 \<le> half_rnd i \<and> half_rnd i < 1"
    by (simp add: half_rnd_def)
  have fall: "HEIGHT + 60 < fy (food_free 6 300 650) + (vy (food_free 6 300 650) + GRAVITY * DT) * DT"
    by (simp add: food_free_def HEIGHT_def GRAVITY_def DT_def TICK_RATE_def)
  have st: "fstate (food_free 6 300 650) \<noteq> Held" "fstate ((food_free 7 300 100)\<lparr>fstate := Held\<rparr>) = Held"
    by (simp_all add: food_free_def)
  have len: "length (foods ?R) = 2" by (simp add: eating_room_def)
  have fs: "foods (fst (updateFoods half_rnd 0 ?R DT))
      = [(food_free 6 300 650)\<lparr>fx := 480, fy := - 20, vx := 0, vy := 0\<rparr>,
         (food_free 7 300 100)\<lparr>fstate := Held\<rparr>]"
    using fall st by (simp add: updateFoods_def eating_room_def Let_def half_rnd_def WIDTH_def)
  from updateFoods_recycles [OF h, of 0 ?R DT] h fall st len fs
  show ?thesis by simp
qed

subsection \<open>Leaving a room\<close>

lemma update_first_idem:
  assumes "\<And>a. P (g a) = P a" and "\<And>a. g (g a) = g a"
  shows "update_first P g (update_first P g xs) = update_first P g xs"
  using assms by (induction xs) simp_all

lemma delete_absent:
  assumes "k \<notin> set (map pid ps)"
  shows "players_delete ps k = ps"
  using assms by (induction ps) (auto simp: players_delete_def)

lemma delete_present:
  assumes "distinct (map pid ps)" and "p \<in> set ps"
  shows "Suc (length (players_delete ps (pid p))) = length ps"
  using assms
proof (induction ps)
  case Nil
  then show ?case by simp
next
  case (Cons q ps)
  show ?case
  proof (cases "q = p")
    case True
    then have "pid p \<notin> set (map pid ps)" using Cons.prems(1) by simp
    then have "players_delete ps (pid p) = ps" by (rule delete_absent)
    then show ?thesis using True by (simp add: players_delete_def)
  next
    case False
    then have "p \<in> set ps" using Cons.prems(2) by simp
    moreover from this have "pid q \<noteq> pid p" using Cons.prems(1) by (auto simp: image_iff)
    ultimately show ?thesis using Cons by (simp add: players_delete_def)
  qed
qed

lemma update_first_none:
  assumes "find P xs = None"
  shows "update_first P g xs = xs"
  using assms by (induction xs) (simp_all split: if_splits)

lemma on_close_room_alt:
  "on_close_room r p =
     resetGameIfNeeded
       (r\<lparr>players := players_delete (players r) (pid p),
          foods := (if truthy_id (holdingFoodId p)
                    then update_first (\<lambda>f. Some (fid f) = holdingFoodId p)
                           (\<lambda>f. f\<lparr>fstate := Free, heldBy := None\<rparr>) (foods r)
                    else foods r)\<rparr>)"
  by (simp add: on_close_room_def Let_def update_first_none split: option.splits)

lemma players_delete_idem: "players_delete (players_delete ps k) k = players_delete ps k"
  by (simp add: players_delete_def)

lemma players_delete_map:
  assumes "\<And>q. pid (h q) = pid q"
  shows "players_delete (map h (players_delete ps k)) k = map h (players_delete ps k)"
  using assms by (simp add: players_delete_def filter_map comp_def)

lemma on_close_room_idem: "on_close_room (on_close_room r p) p = on_close_room r p"
proof -
  let ?P = "\<lambda>f. Some (fid f) = holdingFoodId p"
  let ?g = "\<lambda>f::food. f\<lparr>fstate := Free, heldBy := None\<rparr>"
  have idem: "update_first ?P ?g (update_first ?P ?g fs) = update_first ?P ?g fs" for fs
    by (rule update_first_idem) simp_all
  show ?thesis
    unfolding on_close_room_alt
    by (simp add: resetGameIfNeeded_def idem players_delete_idem players_delete_map comp_def)
qed

lemma on_close_room_length:
  "length (players (on_close_room r p)) = length (players_delete (players r) (pid p))"
  by (simp add: on_close_room_alt resetGameIfNeeded_def)

text \<open>
  Claim C8.  The close handler has no operation that can throw (the food it looks up is
  tested before it is used), so it is a total function of the registry keys, the room
  and the player object of the connection.  Applying it a second time with the same
  player changes nothing: the result of the second application is the result of the
  first.  When the player is in the room, the first application lowers the player count
  by exactly one and the second leaves it there; for a player that is absent the count
  stays.
\<close>

theorem on_close_idempotent:
  "on_close (on_close s k p) k p = on_close s k p
 \<and> (distinct (map pid (players (snd s))) \<and> p \<in> set (players (snd s)) \<longrightarrow>
      Suc (length (players (snd (on_close s k p)))) = length (players (snd s))
    \<and> Suc (length (players (snd (on_close (on_close s k p) k p)))) = length (players (snd s)))
 \<and> (pid p \<notin> set (map pid (players (snd s))) \<longrightarrow>
      length (players (snd (on_close s k p))) = length (players (snd s)))"
proof -
  have idem: "on_close (on_close s k p) k p = on_close s k p"
    by (auto simp: on_close_def Let_def on_close_room_idem)
  have once: "Suc (length (players (snd (on_close s k p)))) = length (players (snd s))"
    if "distinct (map pid (players (snd s)))" "p \<in> set (players (snd s))"
    using delete_present [OF that] by (simp add: on_close_def Let_def on_close_room_length)
  have absent: "length (players (snd (on_close s k p))) = length (players (snd s))"
    if "pid p \<notin> set (map pid (players (snd s)))"
    using delete_absent [OF that] by (simp add: on_close_def Let_def on_close_room_length)
  show ?thesis
    using idem once absent by simp
qed

theorem on_close_idempotent_witness:
  "distinct (map pid (players (snd ({''lobby''}, holding_room))))
   \<and> player_a\<lparr>holdingFoodId := Some 4\<rparr> \<in> set (players (snd ({''lobby''}, holding_room)))
   \<and> on_close ({''lobby''}, holding_room) ''lobby'' (player_a\<lparr>holdingFoodId := Some 4\<rparr>)
       = ({''lobby''}, (createRoom ''lobby'')\<lparr>players := [player_b]\<rparr>)
   \<and> on_close (on_close ({''lobby''}, holding_room) ''lobby'' (player_a\<lparr>holdingFoodId := Some 4\<rparr>))
        ''lobby'' (player_a\<lparr>holdingFoodId := Some 4\<rparr>)
       = ({''lobby''}, (createRoom ''lobby'')\<lparr>players := [player_b]\<rparr>)
   \<and> length (players (snd ({''lobby''}, holding_room))) = 2
   \<and> length (players (snd (on_close ({''lobby''}, holding_room) ''lobby''
        (player_a\<lparr>holdingFoodId := Some 4\<rparr>)))) = 1
   \<and> pid (player_a\<lparr>holdingFoodId := Some 4\<rparr>)
        \<notin> set (map pid (players (snd (on_close ({''lobby''}, holding_room) ''lobby''
              (player_a\<lparr>holdingFoodId := Some 4\<rparr>)))))"
proof -
  let ?s = "({''lobby''}, holding_room)"
  let ?p = "player_a\<lparr>holdingFoodId := Some 4\<rparr>"
  have dp: "distinct (map pid (players (snd ?s)))"
    by (simp add: holding_room_def player_a_def player_b_def)
  have mem: "?p \<in> set (players (snd ?s))"
    by (simp add: holding_room_def)
  have len: "length (players (snd ?s)) = 2"
    by (simp add: holding_room_def)
  have one: "on_close ?s ''lobby'' ?p = ({''lobby''}, (createRoom ''lobby'')\<lparr>players := [player_b]\<rparr>)"
    by (simp add: on_close_def on_close_room_def resetGameIfNeeded_def players_delete_def
        holding_room_def createRoom_def player_a_def player_b_def truthy_id_def food_free_def
        Let_def)
  have absent: "pid ?p \<notin> set (map pid (players (snd (on_close ?s ''lobby'' ?p))))"
    unfolding one by (simp add: player_a_def player_b_def)
  from on_close_idempotent [of ?s "''lobby''" ?p]
    on_close_idempotent [of "on_close ?s ''lobby'' ?p" "''lobby''" ?p]
    dp mem len one absent
  show ?thesis by simp
qed

subsection \<open>Held-food tracking\<close>

lemma players_get_pid: "players_get ps k = Some q \<Longrightarrow> pid q = k"
  by (induction ps) (auto simp: players_get_def split: if_splits)

lemma players_get_mem:
  assumes "distinct (map pid ps)" and "p \<in> set ps"
  shows "players_get ps (pid p) = Some p"
  using assms by (induction ps) (auto simp: players_get_def image_iff)

lemma players_get_update_other:
  assumes "\<And>q. pid (g q) = pid q" and "k \<noteq> j"
  shows "players_get (update_player j g ps) k = players_get ps k"
  using assms by (induction ps) (simp_all add: players_get_def update_player_def)

lemma players_get_update_same:
  assumes "\<And>q. pid (g q) = pid q"
  shows "players_get (update_player k g ps) k = map_option g (players_get ps k)"
  using assms by (induction ps) (simp_all add: players_get_def update_player_def)

lemma update_player_commute:
  "update_player j (\<lambda>q. q\<lparr>holdingFoodId := None\<rparr>)
     (update_player k (\<lambda>q. q\<lparr>holdingFoodId := None\<rparr>) ps)
   = update_player k (\<lambda>q. q\<lparr>holdingFoodId := None\<rparr>)
     (update_player j (\<lambda>q. q\<lparr>holdingFoodId := None\<rparr>) ps)"
  by (induction ps) (simp_all add: update_player_def)

lemma step_dangling:
  assumes "truthy_id (holdingFoodId q)"
    and "Some (the (holdingFoodId q)) \<notin> set (map (\<lambda>f. Some (fid f)) (foods a))"
  shows "updateHeldFoods_step a q = clear_holding (pid q) a"
proof -
  from assms(1) obtain i where i: "holdingFoodId q = Some i"
    by (cases "holdingFoodId q") (simp_all add: truthy_id_def)
  have "\<forall>f \<in> set (foods a). Some (fid f) \<noteq> holdingFoodId q"
    using assms(2) i by (auto simp: image_iff)
  then have "find (\<lambda>f. Some (fid f) = holdingFoodId q) (foods a) = None"
    by (simp add: find_None_iff)
  then show ?thesis using assms(1)
    by (simp add: updateHeldFoods_step_def clear_holding_def)
qed

lemma step_not_holding:
  assumes "\<not> truthy_id (holdingFoodId q)"
  shows "updateHeldFoods_step a q = a"
  using assms by (simp add: updateHeldFoods_step_def)

lemma step_foods_ids: "map fid (foods (updateHeldFoods_step a q)) = map fid (foods a)"
  by (simp add: updateHeldFoods_step_def Let_def map_fid_update_first split: option.splits)

lemma step_players:
  "players (updateHeldFoods_step a q) = players a
   \<or> players (updateHeldFoods_step a q)
       = update_player (pid q) (\<lambda>q. q\<lparr>holdingFoodId := None\<rparr>) (players a)"
  by (simp add: updateHeldFoods_step_def Let_def split: option.splits)

lemma visit_other:
  assumes "k \<noteq> j"
  shows "players_get (players (visit updateHeldFoods_step k a)) j = players_get (players a) j"
    and "map fid (foods (visit updateHeldFoods_step k a)) = map fid (foods a)"
proof -
  show "map fid (foods (visit updateHeldFoods_step k a)) = map fid (foods a)"
    by (simp add: visit_def step_foods_ids split: option.splits)
  show "players_get (players (visit updateHeldFoods_step k a)) j = players_get (players a) j"
  proof (cases "players_get (players a) k")
    case None
    then show ?thesis by (simp add: visit_def)
  next
    case (Some q)
    then have "pid q = k" by (rule players_get_pid)
    with step_players [of a q] assms Some show ?thesis
      by (auto simp: visit_def players_get_update_other)
  qed
qed

lemma fold_visit_other:
  assumes "j \<notin> set ks"
  shows "players_get (players (fold (visit updateHeldFoods_step) ks a)) j = players_get (players a) j
       \<and> map fid (foods (fold (visit updateHeldFoods_step) ks a)) = map fid (foods a)"
  using assms
proof (induction ks arbitrary: a)
  case Nil
  then show ?case by simp
next
  case (Cons k ks)
  then have "k \<noteq> j" "j \<notin> set ks" by auto
  with Cons.IH [of "visit updateHeldFoods_step k a"] visit_other [of k j a]
  show ?case by simp
qed

lemma visit_clear_commute:
  assumes "k \<noteq> j"
  shows "visit updateHeldFoods_step k (clear_holding j a)
       = clear_holding j (visit updateHeldFoods_step k a)"
proof -
  have get: "players_get (players (clear_holding j a)) k = players_get (players a) k"
    using assms by (simp add: clear_holding_def players_get_update_other)
  show ?thesis
  proof (cases "players_get (players a) k")
    case None
    then show ?thesis using get by (simp add: visit_def)
  next
    case (Some q)
    have "updateHeldFoods_step (clear_holding j a) q = clear_holding j (updateHeldFoods_step a q)"
      by (simp add: updateHeldFoods_step_def clear_holding_def Let_def update_player_commute
          split: option.splits)
    then show ?thesis using get Some by (simp add: visit_def)
  qed
qed

lemma fold_visit_clear_commute:
  assumes "j \<notin> set ks"
  shows "fold (visit updateHeldFoods_step) ks (clear_holding j a)
       = clear_holding j (fold (visit updateHeldFoods_step) ks a)"
  using assms
proof (induction ks arbitrary: a)
  case Nil
  then show ?case by simp
next
  case (Cons k ks)
  then have "k \<noteq> j" "j \<notin> set ks" by auto
  then show ?case using Cons.IH [of "visit updateHeldFoods_step k a"]
    by (simp add: visit_clear_commute)
qed

lemma pid_clear_holding: "map pid (players (clear_holding k a)) = map pid (players a)"
  by (simp add: clear_holding_def update_player_def comp_def if_distrib [of pid] cong: if_cong)

text \<open>
  Claim C9.  Let the player \<open>p\<close> of the room hold a food id that no food of the room has.
  The tracking step for \<open>p\<close> has no error branch and returns the room with the
  \<open>holdingFoodId\<close> of \<open>p\<close> cleared and nothing else changed: the foods and the other
  players are as before.  For the whole of \<open>updateHeldFoods\<close> the dangling reference has
  no other effect either: the result is the one obtained from the room in which the
  reference was already cleared, and in it \<open>p\<close> holds nothing.
\<close>

theorem updateHeldFoods_heals:
  assumes dp: "distinct (map pid (players r))"
    and mem: "p \<in> set (players r)"
    and tr: "truthy_id (holdingFoodId p)"
    and dangling: "\<forall>f \<in> set (foods r). Some (fid f) \<noteq> holdingFoodId p"
  shows "updateHeldFoods_step r p = clear_holding (pid p) r
       \<and> updateHeldFoods r = updateHeldFoods (clear_holding (pid p) r)
       \<and> players_get (players (updateHeldFoods r)) (pid p) = Some (p\<lparr>holdingFoodId := None\<rparr>)
       \<and> foods (clear_holding (pid p) r) = foods r
       \<and> (\<forall>q \<in> set (players r). pid q \<noteq> pid p \<longrightarrow> q \<in> set (players (clear_holding (pid p) r)))"
proof -
  let ?V = "visit updateHeldFoods_step"
  from tr obtain i where i: "holdingFoodId p = Some i"
    by (cases "holdingFoodId p") (simp_all add: truthy_id_def)
  have dang: "Some (the (holdingFoodId p)) \<notin> set (map (\<lambda>f. Some (fid f)) fs)"
    if "map fid fs = map fid (foods r)" for fs
  proof -
    have "i \<notin> set (map fid (foods r))" using dangling i by (auto simp: image_iff)
    then have "i \<notin> set (map fid fs)" using that by simp
    then show ?thesis using i by (auto simp: image_iff)
  qed
  have step: "updateHeldFoods_step r p = clear_holding (pid p) r"
    using tr dang [of "foods r"] by (intro step_dangling) simp_all
  from split_list [OF mem] obtain ps1 ps2 where ps: "players r = ps1 @ p # ps2" by blast
  have n1: "pid p \<notin> set (map pid ps1)" and n2: "pid p \<notin> set (map pid ps2)"
    using dp by (auto simp: ps)
  define a1 where "a1 = fold ?V (map pid ps1) r"
  have a1: "players_get (players a1) (pid p) = Some p" "map fid (foods a1) = map fid (foods r)"
    using fold_visit_other [OF n1, of r] players_get_mem [OF dp mem] by (simp_all add: a1_def)
  have at_p: "?V (pid p) a1 = clear_holding (pid p) a1"
    using a1 tr dang [OF a1(2)] by (simp add: visit_def step_dangling)
  have left: "updateHeldFoods r = fold ?V (map pid ps2) (clear_holding (pid p) a1)"
    by (simp add: updateHeldFoods_def for_each_player_def ps a1_def at_p [unfolded a1_def])
  have b1: "fold ?V (map pid ps1) (clear_holding (pid p) r) = clear_holding (pid p) a1"
    unfolding a1_def by (rule fold_visit_clear_commute [OF n1])
  have got: "players_get (players (clear_holding (pid p) a1)) (pid p) = Some (p\<lparr>holdingFoodId := None\<rparr>)"
    using a1(1) by (simp add: clear_holding_def players_get_update_same)
  have at_p': "?V (pid p) (clear_holding (pid p) a1) = clear_holding (pid p) a1"
    using got by (simp add: visit_def step_not_holding truthy_id_def)
  have right: "updateHeldFoods (clear_holding (pid p) r)
      = fold ?V (map pid ps2) (clear_holding (pid p) a1)"
    by (simp add: updateHeldFoods_def for_each_player_def pid_clear_holding ps b1 [unfolded ps]
        at_p')
  have final: "players_get (players (updateHeldFoods r)) (pid p) = Some (p\<lparr>holdingFoodId := None\<rparr>)"
    unfolding left using fold_visit_other [OF n2, of "clear_holding (pid p) a1"] got by simp
  have others: "\<forall>q \<in> set (players r). pid q \<noteq> pid p \<longrightarrow> q \<in> set (players (clear_holding (pid p) r))"
    by (force simp: clear_holding_def update_player_def)
  show ?thesis
    using step left right final others by (simp add: clear_holding_def)
qed

theorem updateHeldFoods_heals_witness:
  "distinct (map pid (players (holding_room\<lparr>players :=
      [player_a\<lparr>holdingFoodId := Some 4\<rparr>, player_b\<lparr>holdingFoodId := Some 9\<rparr>]\<rparr>)))
   \<and> player_b\<lparr>holdingFoodId := Some 9\<rparr> \<in> set (players (holding_room\<lparr>players :=
        [player_a\<lparr>holdingFoodId := Some 4\<rparr>, player_b\<lparr>holdingFoodId := Some 9\<rparr>]\<rparr>))
   \<and> truthy_id (holdingFoodId (player_b\<lparr>holdingFoodId := Some 9\<rparr>))
   \<and> map fid (foods (holding_room\<lparr>players :=
        [player_a\<lparr>holdingFoodId := Some 4\<rparr>, player_b\<lparr>holdingFoodId := Some 9\<rparr>]\<rparr>)) = [4]
   \<and> updateHeldFoods_step (holding_room\<lparr>players :=
        [player_a\<lparr>holdingFoodId := Some 4\<rparr>, player_b\<lparr>holdingFoodId := Some 9\<rparr>]\<rparr>)
        (player_b\<lparr>holdingFoodId := Some 9\<rparr>)
      = holding_room
   \<and> players_get (players (updateHeldFoods (holding_room\<lparr>players :=
        [player_a\<lparr>holdingFoodId := Some 4\<rparr>, player_b\<lparr>holdingFoodId := Some 9\<rparr>]\<rparr>))) ''p_b''
      = Some player_b
   \<and> updateHeldFoods (holding_room\<lparr>players :=
        [player_a\<lparr>holdingFoodId := Some 4\<rparr>, player_b\<lparr>holdingFoodId := Some 9\<rparr>]\<rparr>)
      = updateHeldFoods holding_room"
proof -
  let ?p = "player_b\<lparr>holdingFoodId := Some 9\<rparr>"
  let ?R = "holding_room\<lparr>players := [player_a\<lparr>holdingFoodId := Some 4\<rparr>, ?p]\<rparr>"
  have dp: "distinct (map pid (players ?R))"
    by (simp add: player_a_def player_b_def)
  have mem: "?p \<in> set (players ?R)" by simp
  have tr: "truthy_id (holdingFoodId ?p)" by (simp add: truthy_id_def)
  have ids: "map fid (foods ?R) = [4]"
    by (simp add: holding_room_def food_free_def)
  have dangling: "\<forall>f \<in> set (foods ?R). Some (fid f) \<noteq> holdingFoodId ?p"
    by (simp add: holding_room_def food_free_def)
  have cl: "clear_holding ''p_b'' ?R = holding_room"
    by (simp add: clear_holding_def update_player_def holding_room_def player_a_def player_b_def)
  have pb: "?p\<lparr>holdingFoodId := None\<rparr> = player_b" "pid ?p = ''p_b''"
    by (simp_all add: player_b_def)
  note res = updateHeldFoods_heals [OF dp mem tr dangling, unfolded pb cl]
  show ?thesis
    by (intro conjI dp mem tr ids res [THEN conjunct1]
        res [THEN conjunct2, THEN conjunct1]
        res [THEN conjunct2, THEN conjunct2, THEN conjunct1])
qed

subsection \<open>The tick outside the eating resolution\<close>

text \<open>The ids of the players and of the foods, in order.\<close>

lemma ids_update_player:
  assumes "\<And>q. pid (g q) = pid q"
  shows "map pid (update_player k g ps) = map pid ps"
  using assms by (simp add: update_player_def comp_def)

lemma ids_releaseFood:
  "map pid (players (releaseFood a q)) = map pid (players a)"
  "map fid (foods (releaseFood a q)) = map fid (foods a)"
  by (simp_all add: releaseFood_def ids_update_player map_fid_update_first split: option.splits)

lemma ids_updatePlayers_step:
  "map pid (players (updatePlayers_step dt a q)) = map pid (players a)"
  "map fid (foods (updatePlayers_step dt a q)) = map fid (foods a)"
  by (simp_all add: updatePlayers_step_def Let_def ids_update_player ids_releaseFood)

lemma ids_tryPickup:
  "map pid (players (tryPickup a q)) = map pid (players a)"
  "map fid (foods (tryPickup a q)) = map fid (foods a)"
  by (simp_all add: tryPickup_def ids_update_player map_fid_update_first split: option.splits)

lemma ids_updateHeldFoods_step:
  "map pid (players (updateHeldFoods_step a q)) = map pid (players a)"
  "map fid (foods (updateHeldFoods_step a q)) = map fid (foods a)"
  by (simp_all add: updateHeldFoods_step_def Let_def ids_update_player map_fid_update_first
      split: option.splits)

lemma ids_for_each_player:
  assumes "\<And>a q. map pid (players (body a q)) = map pid (players a)"
    and "\<And>a q. map fid (foods (body a q)) = map fid (foods a)"
  shows "map pid (players (for_each_player body r)) = map pid (players r)
       \<and> map fid (foods (for_each_player body r)) = map fid (foods r)"
proof -
  have "map pid (players (fold (visit body) ks a)) = map pid (players a)
      \<and> map fid (foods (fold (visit body) ks a)) = map fid (foods a)" for ks a
  proof (induction ks arbitrary: a)
    case Nil
    then show ?case by simp
  next
    case (Cons k ks)
    have "map pid (players (visit body k a)) = map pid (players a)"
      "map fid (foods (visit body k a)) = map fid (foods a)"
      by (simp_all add: visit_def assms split: option.splits)
    then show ?case using Cons [of "visit body k a"] by simp
  qed
  then show ?thesis by (simp add: for_each_player_def)
qed

lemma ids_updateFoods_list: "map fid (fst (updateFoods_list rnd n dt fs)) = map fid fs"
  by (induction fs arbitrary: n) (simp_all add: split_beta Let_def)

lemma ids_updateFoods:
  "map pid (players (fst (updateFoods rnd n a dt))) = map pid (players a)"
  "map fid (foods (fst (updateFoods rnd n a dt))) = map fid (foods a)"
  by (simp_all add: updateFoods_def split_beta ids_updateFoods_list)

lemma ids_tick_physics:
  "map pid (players (fst (tick_physics rnd n r))) = map pid (players r)"
  "map fid (foods (fst (tick_physics rnd n r))) = map fid (foods r)"
  by (simp_all add: tick_physics_def Let_def ids_updateFoods updateHeldFoods_def
      updatePlayers_def
      ids_for_each_player [OF ids_updateHeldFoods_step]
      ids_for_each_player [OF ids_tryPickup]
      ids_for_each_player [OF ids_updatePlayers_step])

text \<open>What the tick does after the eating resolution.\<close>

lemma tick_after_eating:
  assumes "started r" and "\<not> gameOver r"
  shows "gameOver (fst (tick rnd n r)) = gameOver (handleEating (fst (tick_physics rnd n r)) DT)"
    "started (fst (tick rnd n r)) = started (handleEating (fst (tick_physics rnd n r)) DT)"
    "loserId (fst (tick rnd n r)) = loserId (handleEating (fst (tick_physics rnd n r)) DT)"
    "winnerId (fst (tick rnd n r)) = winnerId (handleEating (fst (tick_physics rnd n r)) DT)"
    "players (fst (tick rnd n r)) = players (handleEating (fst (tick_physics rnd n r)) DT)"
    "length (foods (handleEating (fst (tick_physics rnd n r)) DT)) \<le> length (foods (fst (tick rnd n r)))"
  using assms by (simp_all add: tick_def split_beta Let_def spawnFood_def)

subsection \<open>Eating resolution\<close>

lemma bump_timer_fields [simp]:
  "fid (bump_timer dt p f) = fid f" "fx (bump_timer dt p f) = fx f"
  "fy (bump_timer dt p f) = fy f" "fvalue (bump_timer dt p f) = fvalue f"
  "heldBy (bump_timer dt p f) = heldBy f" "fstate (bump_timer dt p f) = fstate f"
  by (simp_all add: bump_timer_def)

lemma inMouth_bump [simp]: "inMouth q (bump_timer dt p f) = inMouth q f"
  by (simp add: inMouth_def)

lemma bump_timer_other:
  "pid q \<noteq> pid p \<Longrightarrow> mouthTimers (bump_timer dt p f) (pid q) = mouthTimers f (pid q)"
  by (simp add: bump_timer_def)

lemma new_timer_bump_other:
  "pid q \<noteq> pid p \<Longrightarrow> new_timer dt q (bump_timer dt p f) = new_timer dt q f"
  by (simp add: new_timer_def bump_timer_other)

lemma timer_reached_bump:
  "timer_reached p (bump_timer dt p f) \<longleftrightarrow> EAT_TIME \<le> new_timer dt p f"
  by (simp add: timer_reached_def bump_timer_def new_timer_def EAT_TIME_def)

lemma fold_bump_fields [simp]:
  "fid (fold (bump_timer dt) ps f) = fid f"
  "fvalue (fold (bump_timer dt) ps f) = fvalue f"
  "heldBy (fold (bump_timer dt) ps f) = heldBy f"
  by (induction ps arbitrary: f) simp_all

lemma scan_players_none:
  assumes "distinct (map pid ps)" and "\<forall>p \<in> set ps. new_timer dt p f < EAT_TIME"
  shows "scan_players dt f ps = (fold (bump_timer dt) ps f, None)"
  using assms
proof (induction ps arbitrary: f)
  case Nil
  then show ?case by simp
next
  case (Cons p ps)
  have rest: "\<forall>q \<in> set ps. new_timer dt q (bump_timer dt p f) < EAT_TIME"
  proof
    fix q assume q: "q \<in> set ps"
    then have "pid q \<noteq> pid p" using Cons.prems(1) by (auto simp: image_iff)
    then show "new_timer dt q (bump_timer dt p f) < EAT_TIME"
      using Cons.prems(2) q by (simp add: new_timer_bump_other)
  qed
  have "\<not> timer_reached p (bump_timer dt p f)"
    using Cons.prems by (simp add: timer_reached_bump)
  then show ?case
    using Cons.IH [OF _ rest] Cons.prems(1) by (simp add: Let_def)
qed

lemma scan_players_some:
  assumes "distinct (map pid (ps1 @ e # ps2))"
    and "\<forall>p \<in> set ps1. new_timer dt p f < EAT_TIME"
    and "EAT_TIME \<le> new_timer dt e f"
  shows "scan_players dt f (ps1 @ e # ps2) = (bump_timer dt e (fold (bump_timer dt) ps1 f), Some e)"
  using assms
proof (induction ps1 arbitrary: f)
  case Nil
  then show ?case by (simp add: timer_reached_bump Let_def)
next
  case (Cons p ps1)
  have rest: "\<forall>q \<in> set ps1. new_timer dt q (bump_timer dt p f) < EAT_TIME"
  proof
    fix q assume q: "q \<in> set ps1"
    then have "pid q \<noteq> pid p" using Cons.prems(1) by (auto simp: image_iff)
    then show "new_timer dt q (bump_timer dt p f) < EAT_TIME"
      using Cons.prems(2) q by (simp add: new_timer_bump_other)
  qed
  have "pid e \<noteq> pid p" using Cons.prems(1) by auto
  then have e: "EAT_TIME \<le> new_timer dt e (bump_timer dt p f)"
    using Cons.prems(3) by (simp add: new_timer_bump_other)
  have "\<not> timer_reached p (bump_timer dt p f)"
    using Cons.prems by (simp add: timer_reached_bump)
  then show ?case
    using Cons.IH [OF _ rest e] Cons.prems(1) by (simp add: Let_def)
qed

lemma not_qualifies_iff:
  "\<not> qualifies dt ps f \<longleftrightarrow> (\<forall>p \<in> set ps. new_timer dt p f < EAT_TIME)"
  by (auto simp: qualifies_def not_le)

lemma qualifies_first:
  assumes "qualifies dt ps f"
  shows "\<exists>ps1 e ps2. ps = ps1 @ e # ps2 \<and> (\<forall>p \<in> set ps1. new_timer dt p f < EAT_TIME)
           \<and> EAT_TIME \<le> new_timer dt e f"
proof -
  from assms have "\<exists>p \<in> set ps. EAT_TIME \<le> new_timer dt p f"
    by (simp add: qualifies_def)
  from split_list_first_prop [OF this] show ?thesis
    by (metis not_le)
qed

lemma loop_none:
  assumes "distinct (map pid (players r))"
    and "\<forall>g \<in> set fs. \<not> qualifies dt (players r) g"
  shows "handleEating_loop r dt visited fs =
           r\<lparr>foods := visited @ map (fold (bump_timer dt) (players r)) fs\<rparr>"
  using assms(2)
proof (induction fs arbitrary: visited)
  case Nil
  then show ?case by simp
next
  case (Cons g fs)
  have "scan_players dt g (players r) = (fold (bump_timer dt) (players r) g, None)"
    using Cons.prems assms(1) by (intro scan_players_none) (simp_all add: not_qualifies_iff)
  then show ?case using Cons by simp
qed

lemma loop_some:
  assumes "distinct (map pid (players r))"
    and "\<forall>g \<in> set pre. \<not> qualifies dt (players r) g"
    and "players r = ps1 @ e # ps2"
    and "\<forall>p \<in> set ps1. new_timer dt p f < EAT_TIME"
    and "EAT_TIME \<le> new_timer dt e f"
  shows "handleEating_loop r dt visited (pre @ f # post) =
           consume (r\<lparr>foods := visited @ map (fold (bump_timer dt) (players r)) pre
                        @ bump_timer dt e (fold (bump_timer dt) ps1 f) # post\<rparr>)
             (bump_timer dt e (fold (bump_timer dt) ps1 f)) e"
  using assms(2)
proof (induction pre arbitrary: visited)
  case Nil
  have "scan_players dt f (players r) = (bump_timer dt e (fold (bump_timer dt) ps1 f), Some e)"
    using assms unfolding assms(3) by (intro scan_players_some) simp_all
  then show ?case by simp
next
  case (Cons g pre)
  have "scan_players dt g (players r) = (fold (bump_timer dt) (players r) g, None)"
    using Cons.prems assms(1) by (intro scan_players_none) (simp_all add: not_qualifies_iff)
  then show ?case using Cons by simp
qed

lemma foods_consume: "foods (consume r f e) = filter (\<lambda>g. fid g \<noteq> fid f) (foods r)"
  by (simp add: consume_def Let_def)

lemma filter_fid_distinct:
  assumes "distinct (map fid (pre @ f # post))"
    and "map fid pre' = map fid pre" and "fid f' = fid f"
  shows "filter (\<lambda>g. fid g \<noteq> fid f') (pre' @ f' # post) = pre' @ post"
proof -
  have "fid f \<notin> fid ` set pre'"
    using assms(1,2) by (metis distinct_append distinct.simps(2) list.set_map
        Int_iff empty_iff list.set_intros(1) list.simps(9) map_append)
  moreover have "fid f \<notin> fid ` set post" using assms(1) by auto
  ultimately have "filter (\<lambda>g. fid g \<noteq> fid f) pre' = pre'"
    and "filter (\<lambda>g. fid g \<noteq> fid f) post = post"
    by (auto simp: filter_id_conv image_iff)
  then show ?thesis using assms(3) by simp
qed

lemma find_other_map:
  assumes "\<And>q. pid (g q) = pid q"
  shows "map_option pid (find (\<lambda>q. pid q \<noteq> k) (map g ps)) = map_option pid (find (\<lambda>q. pid q \<noteq> k) ps)"
  using assms by (induction ps) simp_all

lemma find_other_update:
  assumes "\<And>q. pid (g q) = pid q"
  shows "map_option pid (find (\<lambda>q. pid q \<noteq> k) (update_player j g ps))
       = map_option pid (find (\<lambda>q. pid q \<noteq> k) ps)"
  unfolding update_player_def
  by (rule find_other_map) (simp add: assms)

lemma option_case_pid:
  "(case z of None \<Rightarrow> None | Some opponent \<Rightarrow> Some (pid opponent)) = map_option pid z"
  by (cases z) simp_all

lemma consume_players_pid: "map pid (players (consume r f e)) = map pid (players r)"
  by (simp add: consume_def Let_def update_player_def comp_def if_distrib [of pid]
      split: option.splits cong: if_cong)

lemma consume_game_over:
  assumes "MAX_FULLNESS \<le> fullness e + fvalue f"
  shows "gameOver (consume r f e)" "\<not> started (consume r f e)"
    "loserId (consume r f e) = Some (pid e)"
    "winnerId (consume r f e) = map_option pid (find (\<lambda>q. pid q \<noteq> pid e) (players r))"
    "\<forall>q \<in> set (players (consume r f e)). \<not> ready q"
  using assms
  by (simp_all add: consume_def Let_def option_case_pid find_other_update
      split: option.splits)

lemma find_other_split:
  assumes "distinct (map pid (ps1 @ e # ps2))"
  shows "map_option pid (find (\<lambda>q. pid q \<noteq> pid e) (ps1 @ e # ps2))
       = (case ps1 @ ps2 of [] \<Rightarrow> None | opp # _ \<Rightarrow> Some (pid opp))"
proof (cases ps1)
  case Nil
  show ?thesis
  proof (cases ps2)
    case Nil
    with \<open>ps1 = []\<close> show ?thesis by simp
  next
    case (Cons o2 rest)
    with \<open>ps1 = []\<close> assms show ?thesis by (auto simp: image_iff)
  qed
next
  case (Cons o1 rest)
  with assms show ?thesis by (auto simp: image_iff)
qed

lemma fullness_consume:
  assumes "distinct (map pid (ps1 @ e # ps2))" and "players r = ps1 @ e # ps2"
  shows "map fullness (players (consume r f e))
       = map fullness ps1 @ (fullness e + fvalue f) # map fullness ps2"
proof -
  have a: "\<forall>q \<in> set ps1. pid q \<noteq> pid e" and b: "\<forall>q \<in> set ps2. pid q \<noteq> pid e"
    using assms(1) by (auto simp: image_iff)
  have "map fullness (players (consume r f e))
      = map fullness (update_player (pid e)
          (\<lambda>q. q\<lparr>fullness := fullness q + fvalue f, mouthOpenUntil := time r + 35 / 100\<rparr>)
          (players r))"
    by (simp add: consume_def Let_def update_player_def comp_def if_distrib [of fullness]
        split: option.splits cong: if_cong)
  also have "\<dots> = map fullness ps1 @ (fullness e + fvalue f) # map fullness ps2"
    using a b by (simp add: assms(2) update_player_def)
  finally show ?thesis .
qed

lemma handleEating_none:
  assumes "distinct (map pid (players r))"
    and "\<forall>g \<in> set (foods r). \<not> qualifies dt (players r) g"
  shows "handleEating r dt = r\<lparr>foods := map (fold (bump_timer dt) (players r)) (foods r)\<rparr>"
  using loop_none [OF assms, of "[]"] by (simp add: handleEating_def)

lemma handleEating_some:
  assumes dp: "distinct (map pid (players r))" and df: "distinct (map fid (foods r))"
    and split: "foods r = pre @ f # post"
    and pre: "\<forall>g \<in> set pre. \<not> qualifies dt (players r) g"
    and q: "qualifies dt (players r) f"
  shows "foods (handleEating r dt) = map (fold (bump_timer dt) (players r)) pre @ post"
proof -
  from qualifies_first [OF q] obtain ps1 e ps2 where
    ps: "players r = ps1 @ e # ps2" and lt: "\<forall>p \<in> set ps1. new_timer dt p f < EAT_TIME"
    and ge: "EAT_TIME \<le> new_timer dt e f" by blast
  let ?pre' = "map (fold (bump_timer dt) (players r)) pre"
  let ?f' = "bump_timer dt e (fold (bump_timer dt) ps1 f)"
  have "foods (handleEating r dt) = filter (\<lambda>g. fid g \<noteq> fid ?f') (?pre' @ ?f' # post)"
    using loop_some [OF dp pre ps lt ge, of "[]" post]
    by (simp add: handleEating_def split foods_consume)
  also have "\<dots> = ?pre' @ post"
    using df unfolding split
    by (intro filter_fid_distinct [where f = f and pre = pre]) (simp_all add: comp_def)
  finally show ?thesis .
qed

lemma handleEating_length:
  assumes dp: "distinct (map pid (players r))" and df: "distinct (map fid (foods r))"
  shows "length (foods r) \<le> length (foods (handleEating r dt)) + 1"
proof (cases "\<exists>g \<in> set (foods r). qualifies dt (players r) g")
  case True
  from split_list_first_prop [OF True] obtain pre f post where
    s: "foods r = pre @ f # post" "qualifies dt (players r) f"
    "\<forall>g \<in> set pre. \<not> qualifies dt (players r) g" by blast
  show ?thesis
    unfolding handleEating_some [OF dp df s(1,3,2)] by (simp add: s(1))
next
  case False
  then show ?thesis using handleEating_none [OF dp, of dt] by simp
qed

lemma tick_length:
  assumes dp: "distinct (map pid (players r))" and df: "distinct (map fid (foods r))"
  shows "length (foods r) \<le> length (foods (fst (tick rnd n r))) + 1"
proof (cases "started r \<and> \<not> gameOver r")
  case True
  let ?r4 = "fst (tick_physics rnd n r)"
  have dp4: "distinct (map pid (players ?r4))" and df4: "distinct (map fid (foods ?r4))"
    using dp df by (simp_all add: ids_tick_physics)
  have "length (foods r) = length (foods ?r4)"
    using ids_tick_physics(2) [of rnd n r] by (metis length_map)
  also have "\<dots> \<le> length (foods (handleEating ?r4 DT)) + 1"
    by (rule handleEating_length [OF dp4 df4])
  also have "\<dots> \<le> length (foods (fst (tick rnd n r))) + 1"
    using tick_after_eating(6) [of r rnd n] True by simp
  finally show ?thesis .
next
  case False
  then show ?thesis by (auto simp: tick_def)
qed

text \<open>One tick of the sample rooms, up to the eating resolution.\<close>

lemma updatePlayers_eating_room: "updatePlayers (eating_room full fs) DT = eating_room full fs"
proof -
  have m: "0 \<le> MAX_ANGULAR_SPEED * DT"
    by (simp add: MAX_ANGULAR_SPEED_def DT_def TICK_RATE_def)
  have a: "rotateTowards 0 0 (MAX_ANGULAR_SPEED * DT) = 0"
    using m by (intro rotateTowards_same) simp_all
  have b: "rotateTowards pi pi (MAX_ANGULAR_SPEED * DT) = pi"
    using m by (intro rotateTowards_same) simp_all
  show ?thesis
    by (simp add: updatePlayers_def for_each_player_def visit_def players_get_def
        updatePlayers_step_def eating_room_def createRoom_def player_a_def player_b_def
        normalize_vec_def hypot_def clamp_def a b update_player_def Let_def
        WIDTH_def HEIGHT_def)
qed


lemma tip_player_b: "tipPosition (player_b\<lparr>ready := b\<rparr>) = (599, 270)"
  by (simp add: tipPosition_def player_b_def CHOPSTICK_LENGTH_def HEIGHT_def WIDTH_def)

lemma mouth_out_of_reach:
  "\<not> pickable (player_a\<lparr>ready := b, fullness := full\<rparr>) (food_at_mouth i v)"
  "\<not> pickable (player_b\<lparr>ready := b\<rparr>) (food_at_mouth i v)"
  "\<not> pickable (player_b\<lparr>ready := b\<rparr>) food_far"
  by (simp_all add: pickable_def tip_distance_def tip_player_a tip_player_b food_at_mouth_def
      food_far_def hypot_le_iff CONE_RADIUS_def power2_eq_square)

lemma tryPickup_nothing:
  assumes "\<forall>g \<in> set (foods a). \<not> pickable q g"
  shows "tryPickup a q = a"
  using assms find_none [of "foods a" "pickable q"]
  by (simp add: tryPickup_def isInCone_pickable)

lemma pickup_eating_room:
  assumes "set fs \<subseteq> {food_at_mouth 1 6, food_at_mouth 2 13, food_far}"
  shows "for_each_player tryPickup (eating_room full fs) = eating_room full fs"
proof -
  let ?R = "eating_room full fs"
  have a: "tryPickup ?R (player_a\<lparr>ready := True, fullness := full\<rparr>) = ?R"
    using assms mouth_out_of_reach(1) far_not_pickable
    by (intro tryPickup_nothing) (auto simp: eating_room_def)
  have b: "tryPickup ?R (player_b\<lparr>ready := True\<rparr>) = ?R"
    using assms mouth_out_of_reach(2,3)
    by (intro tryPickup_nothing) (auto simp: eating_room_def)
  have ga: "players_get (players ?R) ''p_a'' = Some (player_a\<lparr>ready := True, fullness := full\<rparr>)"
    and gb: "players_get (players ?R) ''p_b'' = Some (player_b\<lparr>ready := True\<rparr>)"
    by (simp_all add: players_get_def eating_room_def player_a_def player_b_def)
  have keys: "map pid (players ?R) = [''p_a'', ''p_b'']"
    by (simp add: eating_room_def player_a_def player_b_def)
  show ?thesis
    by (simp add: for_each_player_def keys visit_def ga gb a b)
qed

lemma held_eating_room: "updateHeldFoods (eating_room full fs) = eating_room full fs"
  by (simp add: updateHeldFoods_def for_each_player_def visit_def players_get_def
      updateHeldFoods_step_def eating_room_def player_a_def player_b_def truthy_id_def)

lemma fall_sample:
  assumes "set fs \<subseteq> {food_at_mouth 1 6, food_at_mouth 2 13, food_far}"
  shows "updateFoods_list rnd n DT fs = (map after_fall fs, n)"
  using assms
proof (induction fs)
  case Nil
  then show ?case by simp
next
  case (Cons f fs)
  then have "f = food_at_mouth 1 6 \<or> f = food_at_mouth 2 13 \<or> f = food_far" by auto
  then have "fstate f \<noteq> Held \<and> \<not> HEIGHT + 60 < fy f + (vy f + GRAVITY * DT) * DT"
    by (auto simp: food_at_mouth_def food_far_def HEIGHT_def GRAVITY_def DT_def TICK_RATE_def)
  then show ?case using Cons by (simp add: after_fall_def Let_def)
qed

lemma eating_room_foods:
  "foods (eating_room full fs) = fs"
  "(eating_room full fs)\<lparr>foods := fs'\<rparr> = eating_room full fs'"
  by (simp_all add: eating_room_def)

lemma tick_physics_eating_room:
  assumes "set fs \<subseteq> {food_at_mouth 1 6, food_at_mouth 2 13, food_far}"
  shows "tick_physics rnd n (eating_room full fs) = (eating_room full (map after_fall fs), n)"
  by (simp add: tick_physics_def updatePlayers_eating_room pickup_eating_room [OF assms]
      held_eating_room updateFoods_def fall_sample [OF assms] eating_room_foods Let_def)

lemma new_timer_after_fall:
  "new_timer DT (player_a\<lparr>ready := True, fullness := full\<rparr>) (after_fall (food_at_mouth i v))
     = 39 / 100 + 1 / 60"
  by (simp add: new_timer_def inMouth_def mouthPosition_def player_a_def food_at_mouth_def
      after_fall_def hypot_le_iff HEIGHT_def MOUTH_OFFSET_X_def MOUTH_OFFSET_Y_LEFT_def
      MOUTH_RADIUS_def GRAVITY_def DT_def TICK_RATE_def Let_def power2_eq_square)

lemma qualifies_after_fall:
  "qualifies DT (players (eating_room full fs)) (after_fall (food_at_mouth i v))"
  by (simp add: qualifies_def eating_room_def new_timer_after_fall EAT_TIME_def)

lemma not_qualifies_far:
  "\<not> qualifies DT (players (eating_room full fs)) food_far"
  by (simp add: qualifies_def eating_room_def new_timer_def inMouth_def mouthPosition_def
      player_a_def player_b_def food_far_def hypot_le_iff HEIGHT_def WIDTH_def
      MOUTH_OFFSET_X_def MOUTH_OFFSET_Y_LEFT_def MOUTH_OFFSET_Y_RIGHT_def MOUTH_RADIUS_def
      EAT_TIME_def Let_def power2_eq_square)

lemma consume_lastSpawnTime: "lastSpawnTime (consume a f e) = lastSpawnTime a"
  by (simp add: consume_def Let_def)

lemma handleEating_loop_lastSpawnTime:
  "lastSpawnTime (handleEating_loop a dt visited fs) = lastSpawnTime a"
  by (induction fs arbitrary: visited) (simp_all add: consume_lastSpawnTime split: prod.splits option.splits)

lemma handleEating_lastSpawnTime: "lastSpawnTime (handleEating a dt) = lastSpawnTime a"
  by (simp add: handleEating_def handleEating_loop_lastSpawnTime)

lemma tick_eating_room_foods:
  assumes "set fs \<subseteq> {food_at_mouth 1 6, food_at_mouth 2 13, food_far}"
  shows "foods (fst (tick rnd n (eating_room full fs)))
       = foods (handleEating (eating_room full (map after_fall fs)) DT)"
proof -
  have "lastSpawnTime (eating_room full (map after_fall fs)) = 0"
    by (simp add: eating_room_def createRoom_def)
  then show ?thesis
    by (simp add: tick_def tick_physics_eating_room [OF assms] handleEating_lastSpawnTime
        Let_def DT_def TICK_RATE_def SPAWN_INTERVAL_def)
      (simp add: eating_room_def createRoom_def)
qed

text \<open>
  Claim C2.  With the player ids and the food ids of the room pairwise distinct, the
  eating resolution removes at most one food, and so does a whole tick.  If no food
  qualifies, no food is removed.  Otherwise the first food in iteration order that
  qualifies (some player's dwell timer reaches the eat-time threshold with this tick's
  update) is the one removed, and the foods after it are left exactly as they were, also
  those that qualify as well: the scan has stopped.
\<close>

theorem handleEating_at_most_one:
  assumes dp: "distinct (map pid (players r))" and df: "distinct (map fid (foods r))"
  shows "length (foods r) \<le> length (foods (handleEating r dt)) + 1
       \<and> length (foods r) \<le> length (foods (fst (tick rnd n r))) + 1
       \<and> ((\<forall>g \<in> set (foods r). \<not> qualifies dt (players r) g) \<longrightarrow>
             map fid (foods (handleEating r dt)) = map fid (foods r))
       \<and> (\<forall>pre f post. foods r = pre @ f # post
               \<and> (\<forall>g \<in> set pre. \<not> qualifies dt (players r) g)
               \<and> qualifies dt (players r) f \<longrightarrow>
             map fid (foods (handleEating r dt)) = map fid pre @ map fid post
           \<and> drop (length pre) (foods (handleEating r dt)) = post)"
proof -
  have none: "map fid (foods (handleEating r dt)) = map fid (foods r)"
    if "\<forall>g \<in> set (foods r). \<not> qualifies dt (players r) g"
    using handleEating_none [OF dp that] by (simp add: comp_def)
  have some: "map fid (foods (handleEating r dt)) = map fid pre @ map fid post
           \<and> drop (length pre) (foods (handleEating r dt)) = post"
    if "foods r = pre @ f # post" "\<forall>g \<in> set pre. \<not> qualifies dt (players r) g"
      "qualifies dt (players r) f" for pre f post
    using handleEating_some [OF dp df that] by (simp add: comp_def)
  show ?thesis
    using none some handleEating_length [OF dp df, of dt] tick_length [OF dp df, of rnd n]
    by blast
qed

theorem handleEating_at_most_one_witness:
  "distinct (map pid (players (eating_room 40 [food_at_mouth 1 6, food_at_mouth 2 13, food_far])))
   \<and> distinct (map fid (foods (eating_room 40 [food_at_mouth 1 6, food_at_mouth 2 13, food_far])))
   \<and> fst (tick_physics half_rnd 0 (eating_room 40 [food_at_mouth 1 6, food_at_mouth 2 13, food_far]))
       = eating_room 40 [after_fall (food_at_mouth 1 6), after_fall (food_at_mouth 2 13),
           after_fall food_far]
   \<and> qualifies DT
        (players (eating_room 40 [after_fall (food_at_mouth 1 6), after_fall (food_at_mouth 2 13),
           after_fall food_far]))
        (after_fall (food_at_mouth 1 6))
   \<and> qualifies DT
        (players (eating_room 40 [after_fall (food_at_mouth 1 6), after_fall (food_at_mouth 2 13),
           after_fall food_far]))
        (after_fall (food_at_mouth 2 13))
   \<and> foods (handleEating
        (eating_room 40 [after_fall (food_at_mouth 1 6), after_fall (food_at_mouth 2 13),
           after_fall food_far]) DT)
       = [after_fall (food_at_mouth 2 13), after_fall food_far]
   \<and> map fid (foods (fst (tick half_rnd 0
        (eating_room 40 [food_at_mouth 1 6, food_at_mouth 2 13, food_far])))) = [2, 3]
   \<and> foods (eating_room 40 [food_far]) = [food_far]
   \<and> \<not> qualifies DT (players (eating_room 40 [food_far])) food_far
   \<and> map fid (foods (handleEating (eating_room 40 [food_far]) DT)) = [3]"
proof -
  let ?fs = "[food_at_mouth 1 6, food_at_mouth 2 13, food_far]"
  let ?Init = "eating_room 40 ?fs"
  let ?R = "eating_room 40 [after_fall (food_at_mouth 1 6), after_fall (food_at_mouth 2 13),
           after_fall food_far]"
  let ?Quiet = "eating_room 40 [food_far]"
  have sub: "set ?fs \<subseteq> {food_at_mouth 1 6, food_at_mouth 2 13, food_far}" by simp
  have dp: "distinct (map pid (players (eating_room 40 fs)))" for fs
    by (simp add: eating_room_def player_a_def player_b_def)
  have df: "distinct (map fid (foods ?R))" "distinct (map fid (foods ?Quiet))"
    "distinct (map fid (foods ?Init))"
    by (simp_all add: eating_room_def food_at_mouth_def food_far_def after_fall_def)
  have phys: "fst (tick_physics half_rnd 0 ?Init) = ?R"
    unfolding tick_physics_eating_room [OF sub] by simp
  have split: "foods ?R = [] @ after_fall (food_at_mouth 1 6)
      # [after_fall (food_at_mouth 2 13), after_fall food_far]"
    by (simp add: eating_room_def)
  have pre: "\<forall>g \<in> set []. \<not> qualifies DT (players ?R) g" by simp
  have none: "\<forall>g \<in> set (foods ?Quiet). \<not> qualifies DT (players ?Quiet) g"
    using not_qualifies_far [of 40 "[food_far]"] by (simp add: eating_room_def)
  have fids: "map fid (foods ?Quiet) = [3]"
    by (simp add: eating_room_def food_far_def)
  note first = handleEating_at_most_one [OF dp df(1), of DT, THEN conjunct2, THEN conjunct2,
      THEN conjunct2, rule_format, of "[]" "after_fall (food_at_mouth 1 6)"
        "[after_fall (food_at_mouth 2 13), after_fall food_far]"]
  have a: "foods (handleEating ?R DT) = [after_fall (food_at_mouth 2 13), after_fall food_far]"
    using first [OF conjI [OF split conjI [OF pre qualifies_after_fall]]] by simp
  have t: "map fid (foods (fst (tick half_rnd 0 ?Init))) = [2, 3]"
    using tick_eating_room_foods [OF sub, of half_rnd 0 40] a
    by (simp add: after_fall_def food_at_mouth_def food_far_def)
  note quiet = handleEating_at_most_one [OF dp df(2), of DT, THEN conjunct2, THEN conjunct2,
      THEN conjunct1]
  have b: "map fid (foods (handleEating ?Quiet DT)) = [3]"
    using quiet [THEN mp, OF none] fids by simp
  have c: "foods ?Quiet = [food_far]" by (simp add: eating_room_def)
  show ?thesis
    by (intro conjI dp df(3) phys qualifies_after_fall a t c not_qualifies_far b)
qed

text \<open>
  Claim C1.  Let \<open>f\<close> be the first food that qualifies and \<open>eater\<close> the first player whose
  dwell timer for it reaches the threshold, so that the eating resolution consumes \<open>f\<close>
  for \<open>eater\<close>.  If the eater's fullness with the food's value reaches \<open>MAX_FULLNESS\<close>,
  the room leaves the resolution with \<open>gameOver\<close> set, \<open>started\<close> cleared, the eater as
  loser, the first other player as winner (none when the eater is alone), and every
  player's ready flag cleared; and when \<open>r\<close> is the room that a tick of the running room
  \<open>r0\<close> hands to the eating resolution, the room is in that state at the end of the tick.
\<close>

theorem eating_game_over:
  assumes dp: "distinct (map pid (players r))"
    and split: "foods r = pre @ f # post"
    and pre: "\<forall>g \<in> set pre. \<not> qualifies dt (players r) g"
    and ps: "players r = ps1 @ eater # ps2"
    and lt: "\<forall>p \<in> set ps1. new_timer dt p f < EAT_TIME"
    and ge: "EAT_TIME \<le> new_timer dt eater f"
    and full: "MAX_FULLNESS \<le> fullness eater + fvalue f"
  shows "gameOver (handleEating r dt) \<and> \<not> started (handleEating r dt)
       \<and> loserId (handleEating r dt) = Some (pid eater)
       \<and> winnerId (handleEating r dt)
           = (case ps1 @ ps2 of [] \<Rightarrow> None | opp # _ \<Rightarrow> Some (pid opp))
       \<and> (\<forall>q \<in> set (players (handleEating r dt)). \<not> ready q)
       \<and> map pid (players (handleEating r dt)) = map pid (players r)
       \<and> map fullness (players (handleEating r dt))
           = map fullness ps1 @ (fullness eater + fvalue f) # map fullness ps2
       \<and> fid f \<notin> fid ` set (foods (handleEating r dt))
       \<and> (started r0 \<and> \<not> gameOver r0 \<and> fst (tick_physics rnd n r0) = r \<and> dt = DT \<longrightarrow>
            gameOver (fst (tick rnd n r0)) \<and> \<not> started (fst (tick rnd n r0))
          \<and> loserId (fst (tick rnd n r0)) = Some (pid eater)
          \<and> winnerId (fst (tick rnd n r0))
              = (case ps1 @ ps2 of [] \<Rightarrow> None | opp # _ \<Rightarrow> Some (pid opp))
          \<and> (\<forall>q \<in> set (players (fst (tick rnd n r0))). \<not> ready q))"
proof -
  let ?f' = "bump_timer dt eater (fold (bump_timer dt) ps1 f)"
  let ?r1 = "r\<lparr>foods := map (fold (bump_timer dt) (players r)) pre @ ?f' # post\<rparr>"
  have he: "handleEating r dt = consume ?r1 ?f' eater"
    using loop_some [OF dp pre ps lt ge, of "[]" post] by (simp add: handleEating_def split)
  have full': "MAX_FULLNESS \<le> fullness eater + fvalue ?f'"
    using full by simp
  have dp': "distinct (map pid (ps1 @ eater # ps2))"
    using dp by (simp add: ps)
  have pl: "players ?r1 = ps1 @ eater # ps2" by (simp add: ps)
  have w: "winnerId (handleEating r dt)
           = (case ps1 @ ps2 of [] \<Rightarrow> None | opp # _ \<Rightarrow> Some (pid opp))"
    unfolding he consume_game_over(4) [OF full'] pl by (rule find_other_split [OF dp'])
  have fl: "map fullness (players (handleEating r dt))
           = map fullness ps1 @ (fullness eater + fvalue f) # map fullness ps2"
    unfolding he using fullness_consume [OF dp' pl, of ?f'] by simp
  have gone: "fid f \<notin> fid ` set (foods (handleEating r dt))"
    unfolding he by (auto simp: foods_consume)
  have ids: "map pid (players (handleEating r dt)) = map pid (players r)"
    unfolding he by (simp add: consume_players_pid)
  have flags: "gameOver (handleEating r dt)" "\<not> started (handleEating r dt)"
    "loserId (handleEating r dt) = Some (pid eater)"
    "\<forall>q \<in> set (players (handleEating r dt)). \<not> ready q"
    using consume_game_over(1,2,3,5) [OF full', of ?r1] unfolding he by simp_all
  have whole: "gameOver (fst (tick rnd n r0)) \<and> \<not> started (fst (tick rnd n r0))
          \<and> loserId (fst (tick rnd n r0)) = Some (pid eater)
          \<and> winnerId (fst (tick rnd n r0))
              = (case ps1 @ ps2 of [] \<Rightarrow> None | opp # _ \<Rightarrow> Some (pid opp))
          \<and> (\<forall>q \<in> set (players (fst (tick rnd n r0))). \<not> ready q)"
    if "started r0" "\<not> gameOver r0" "fst (tick_physics rnd n r0) = r" "dt = DT"
    using tick_after_eating(1-5) [OF that(1,2), of rnd n] flags w
    unfolding that(3) that(4) by simp
  show ?thesis
    using flags w fl gone ids whole by blast
qed

theorem eating_game_over_witness:
  "distinct (map pid (players (eating_room 95 [after_fall (food_at_mouth 1 6), after_fall (food_at_mouth 2 13)])))
   \<and> foods (eating_room 95 [after_fall (food_at_mouth 1 6), after_fall (food_at_mouth 2 13)])
       = [] @ after_fall (food_at_mouth 1 6) # [after_fall (food_at_mouth 2 13)]
   \<and> players (eating_room 95 [after_fall (food_at_mouth 1 6), after_fall (food_at_mouth 2 13)])
       = [] @ player_a\<lparr>ready := True, fullness := 95\<rparr> # [player_b\<lparr>ready := True\<rparr>]
   \<and> EAT_TIME \<le> new_timer DT (player_a\<lparr>ready := True, fullness := 95\<rparr>)
        (after_fall (food_at_mouth 1 6))
   \<and> MAX_FULLNESS \<le> fullness (player_a\<lparr>ready := True, fullness := 95\<rparr>)
        + fvalue (after_fall (food_at_mouth 1 6))
   \<and> started (eating_room 95 [food_at_mouth 1 6, food_at_mouth 2 13])
   \<and> \<not> gameOver (eating_room 95 [food_at_mouth 1 6, food_at_mouth 2 13])
   \<and> fst (tick_physics half_rnd 0 (eating_room 95 [food_at_mouth 1 6, food_at_mouth 2 13]))
       = eating_room 95 [after_fall (food_at_mouth 1 6), after_fall (food_at_mouth 2 13)]
   \<and> gameOver (fst (tick half_rnd 0 (eating_room 95 [food_at_mouth 1 6, food_at_mouth 2 13])))
   \<and> \<not> started (fst (tick half_rnd 0 (eating_room 95 [food_at_mouth 1 6, food_at_mouth 2 13])))
   \<and> loserId (fst (tick half_rnd 0 (eating_room 95 [food_at_mouth 1 6, food_at_mouth 2 13])))
       = Some ''p_a''
   \<and> winnerId (fst (tick half_rnd 0 (eating_room 95 [food_at_mouth 1 6, food_at_mouth 2 13])))
       = Some ''p_b''
   \<and> map ready (players (fst (tick half_rnd 0
        (eating_room 95 [food_at_mouth 1 6, food_at_mouth 2 13])))) = [False, False]
   \<and> map fullness (players (handleEating
        (eating_room 95 [after_fall (food_at_mouth 1 6), after_fall (food_at_mouth 2 13)]) DT))
       = [101, 0]"
proof -
  let ?fs = "[food_at_mouth 1 6, food_at_mouth 2 13]"
  let ?Init = "eating_room 95 ?fs"
  let ?R = "eating_room 95 [after_fall (food_at_mouth 1 6), after_fall (food_at_mouth 2 13)]"
  let ?e = "player_a\<lparr>ready := True, fullness := 95\<rparr>"
  let ?T = "fst (tick half_rnd 0 ?Init)"
  have sub: "set ?fs \<subseteq> {food_at_mouth 1 6, food_at_mouth 2 13, food_far}" by simp
  have dp: "distinct (map pid (players ?R))"
    by (simp add: eating_room_def player_a_def player_b_def)
  have split: "foods ?R = [] @ after_fall (food_at_mouth 1 6) # [after_fall (food_at_mouth 2 13)]"
    by (simp add: eating_room_def)
  have ps: "players ?R = [] @ ?e # [player_b\<lparr>ready := True\<rparr>]"
    by (simp add: eating_room_def)
  have pre: "\<forall>g \<in> set []. \<not> qualifies DT (players ?R) g" by simp
  have lt: "\<forall>p \<in> set []. new_timer DT p (after_fall (food_at_mouth 1 6)) < EAT_TIME" by simp
  have ge: "EAT_TIME \<le> new_timer DT ?e (after_fall (food_at_mouth 1 6))"
    by (simp add: new_timer_after_fall EAT_TIME_def)
  have full: "MAX_FULLNESS \<le> fullness ?e + fvalue (after_fall (food_at_mouth 1 6))"
    by (simp add: MAX_FULLNESS_def food_at_mouth_def after_fall_def)
  have run: "started ?Init" "\<not> gameOver ?Init"
    by (simp_all add: eating_room_def createRoom_def)
  have phys: "fst (tick_physics half_rnd 0 ?Init) = ?R"
    unfolding tick_physics_eating_room [OF sub] by simp
  have ids: "pid ?e = ''p_a''" "pid (player_b\<lparr>ready := True\<rparr>) = ''p_b''"
    by (simp_all add: player_a_def player_b_def)
  note res = eating_game_over [OF dp split pre ps lt ge full, of ?Init half_rnd 0]
  have whole: "gameOver ?T \<and> \<not> started ?T \<and> loserId ?T = Some (pid ?e)
      \<and> winnerId ?T = (case [] @ [player_b\<lparr>ready := True\<rparr>] of [] \<Rightarrow> None
                        | opp # _ \<Rightarrow> Some (pid opp))
      \<and> (\<forall>q \<in> set (players ?T). \<not> ready q)"
    using res run phys by blast
  have same: "players ?T = players (handleEating ?R DT)"
    using tick_after_eating(5) [OF run, of half_rnd 0] unfolding phys .
  have len: "length (players ?T) = 2"
    unfolding same using res ps by (metis length_map append_Nil length_Cons list.size(3) numeral_2_eq_2)
  have rd: "map ready (players ?T) = [False, False]"
  proof -
    obtain p1 p2 where p: "players ?T = [p1, p2]"
      using len by (auto simp: length_Suc_conv numeral_2_eq_2)
    with whole show ?thesis by simp
  qed
  have fl: "map fullness (players (handleEating ?R DT)) = [101, 0]"
    using res by (simp add: player_a_def player_b_def food_at_mouth_def after_fall_def)
  have w: "winnerId ?T = Some ''p_b''" and l: "loserId ?T = Some ''p_a''"
    using whole by (simp_all add: ids)
  show ?thesis
    using whole by (intro conjI dp split ps ge full run phys rd fl w l) simp_all
qed

end
